theory Spec2Isabelle
  imports Main
begin

section \<open>The services\<close>

text \<open>
  A food-ordering backend of five Express applications (API gateway, auth, restaurant,
  order and payment service) and a queue worker, sharing a Postgres database and a Redis
  instance. Each application runs the JSON body parser first, and the services a request
  logger as well, before the proxies or route handlers. The handlers of the restaurant,
  auth and order service below take the request as the parser hands it on; the gateway and
  the payment service are modelled with the parser in front, since what they answer to a
  request depends on it.

  A handler is an async function. It awaits calls to the database, to Redis and to the
  job queue, and any of them may reject; the handler then ends with that error and sends
  nothing more. The model writes this as \<open>Inl\<close> of the failure, and \<open>Inr\<close> of the
  response otherwise. Time is counted in seconds.
\<close>

datatype failure = RedisError | DbError | QueueError | SyntaxError | TypeError | JwtError

text \<open>
  What a handler sends: \<open>res.json(value)\<close> or \<open>res.sendStatus(code)\<close>.
\<close>

datatype 'a response = Json 'a | SendStatus nat

section \<open>Restaurant service\<close>

text \<open>
  The service keeps its rows in the table \<open>restaurants(id UUID, name TEXT)\<close> and caches
  the serialised list in Redis under the key \<open>restaurants\<close> for 60 seconds.
\<close>

subsection \<open>Rows and their JSON text\<close>

text \<open>
  A row as the database driver hands it to the handler: an object with the two columns,
  each a string or \<open>null\<close>.
\<close>

record restaurant =
  rid :: "string option"
  rname :: "string option"

text \<open>
  \<open>JSON.stringify\<close> on a list of rows. Strings are quoted as the language defines it:
  the quote and the backslash are escaped, the control characters below 0x20 are written
  with their short escape or as \<open>\u00XX\<close>, every other character stands for itself.
\<close>

definition hex_digit :: "nat \<Rightarrow> char" where
  "hex_digit n = (if n mod 16 < 10 then char_of (48 + n mod 16) else char_of (87 + n mod 16))"

definition esc :: "char \<Rightarrow> string" where
  "esc c =
     (if c = CHR 0x22 then [CHR 0x5C, CHR 0x22]
      else if c = CHR 0x5C then [CHR 0x5C, CHR 0x5C]
      else if c = CHR 0x08 then [CHR 0x5C, CHR ''b'']
      else if c = CHR 0x09 then [CHR 0x5C, CHR ''t'']
      else if c = CHR 0x0A then [CHR 0x5C, CHR ''n'']
      else if c = CHR 0x0C then [CHR 0x5C, CHR ''f'']
      else if c = CHR 0x0D then [CHR 0x5C, CHR ''r'']
      else if (of_char c :: nat) < 32
        then [CHR 0x5C, CHR ''u'', CHR ''0'', CHR ''0'',
              hex_digit (of_char c div 16), hex_digit (of_char c mod 16)]
      else [c])"

definition quote :: "string \<Rightarrow> string" where
  "quote s = CHR 0x22 # concat (map esc s) @ [CHR 0x22]"

fun stringify_value :: "string option \<Rightarrow> string" where
  "stringify_value None = ''null''"
| "stringify_value (Some s) = quote s"

definition stringify_row :: "restaurant \<Rightarrow> string" where
  "stringify_row r =
     CHR ''{'' # quote ''id'' @ '':'' @ stringify_value (rid r) @ '','' @
     quote ''name'' @ '':'' @ stringify_value (rname r) @ ''}''"

fun join_rows :: "restaurant list \<Rightarrow> string" where
  "join_rows [] = []"
| "join_rows [r] = stringify_row r"
| "join_rows (r # rs) = stringify_row r @ '','' @ join_rows rs"

definition JSON_stringify :: "restaurant list \<Rightarrow> string" where
  "JSON_stringify rows = ''['' @ join_rows rows @ '']''"

text \<open>
  \<open>JSON.parse\<close> throws \<open>SyntaxError\<close> on a text that is not JSON (\<open>None\<close> here).
  The reader below covers the texts \<open>JSON_stringify\<close> writes, which are the only ones the
  service stores; any other text is read as \<open>None\<close>.
\<close>

definition hex_value :: "char \<Rightarrow> nat option" where
  "hex_value c =
     (let n = (of_char c :: nat) in
      if 48 \<le> n \<and> n \<le> 57 then Some (n - 48)
      else if 97 \<le> n \<and> n \<le> 102 then Some (n - 87)
      else if 65 \<le> n \<and> n \<le> 70 then Some (n - 55)
      else None)"

definition unesc :: "char \<Rightarrow> char option" where
  "unesc e =
     (if e = CHR 0x22 then Some (CHR 0x22)
      else if e = CHR 0x5C then Some (CHR 0x5C)
      else if e = CHR ''/'' then Some (CHR ''/'')
      else if e = CHR ''b'' then Some (CHR 0x08)
      else if e = CHR ''t'' then Some (CHR 0x09)
      else if e = CHR ''n'' then Some (CHR 0x0A)
      else if e = CHR ''f'' then Some (CHR 0x0C)
      else if e = CHR ''r'' then Some (CHR 0x0D)
      else None)"

definition unicode_escape :: "char \<Rightarrow> char \<Rightarrow> char \<Rightarrow> char \<Rightarrow> char option" where
  "unicode_escape a b c d =
     (case (hex_value a, hex_value b, hex_value c, hex_value d) of
        (Some 0, Some 0, Some h, Some l) \<Rightarrow> Some (char_of (h * 16 + l))
      | _ \<Rightarrow> None)"

definition cons_fst :: "char \<Rightarrow> (string \<times> string) option \<Rightarrow> (string \<times> string) option" where
  "cons_fst c r = (case r of None \<Rightarrow> None | Some (s, rest) \<Rightarrow> Some (c # s, rest))"

text \<open>The characters of a string after its opening quote, up to the closing one.\<close>

fun read_string :: "string \<Rightarrow> (string \<times> string) option" where
  "read_string [] = None"
| "read_string (c # cs) =
     (if c = CHR 0x22 then Some ([], cs)
      else if c = CHR 0x5C then
        (case cs of
           [] \<Rightarrow> None
         | e # cs' \<Rightarrow>
             (if e = CHR ''u'' then
                (case cs' of
                   a # b # x # y # rest \<Rightarrow>
                     (case unicode_escape a b x y of
                        None \<Rightarrow> None
                      | Some u \<Rightarrow> cons_fst u (read_string rest))
                 | _ \<Rightarrow> None)
              else
                (case unesc e of
                   None \<Rightarrow> None
                 | Some u \<Rightarrow> cons_fst u (read_string cs'))))
      else if (of_char c :: nat) < 32 then None
      else cons_fst c (read_string cs))"

fun expect :: "string \<Rightarrow> string \<Rightarrow> string option" where
  "expect [] s = Some s"
| "expect (c # cs) [] = None"
| "expect (c # cs) (d # ds) = (if c = d then expect cs ds else None)"

definition read_value :: "string \<Rightarrow> (string option \<times> string) option" where
  "read_value s =
     (case expect ''null'' s of
        Some rest \<Rightarrow> Some (None, rest)
      | None \<Rightarrow>
          (case s of
             [] \<Rightarrow> None
           | c # cs \<Rightarrow>
               if c = CHR 0x22
               then (case read_string cs of
                       None \<Rightarrow> None
                     | Some (v, rest) \<Rightarrow> Some (Some v, rest))
               else None))"

definition read_row :: "string \<Rightarrow> (restaurant \<times> string) option" where
  "read_row s =
     (case expect (CHR ''{'' # quote ''id'' @ '':'') s of
        None \<Rightarrow> None
      | Some s1 \<Rightarrow>
          (case read_value s1 of
             None \<Rightarrow> None
           | Some (i, s2) \<Rightarrow>
               (case expect ('','' @ quote ''name'' @ '':'') s2 of
                  None \<Rightarrow> None
                | Some s3 \<Rightarrow>
                    (case read_value s3 of
                       None \<Rightarrow> None
                     | Some (n, s4) \<Rightarrow>
                         (case expect ''}'' s4 of
                            None \<Rightarrow> None
                          | Some s5 \<Rightarrow> Some (\<lparr>rid = i, rname = n\<rparr>, s5))))))"

text \<open>
  The rows after the first, each behind a comma, up to the closing bracket, which must
  end the text. The fuel bounds the number of rows; the length of the text is enough.
\<close>

fun read_more :: "nat \<Rightarrow> string \<Rightarrow> restaurant list option" where
  "read_more 0 s = None"
| "read_more (Suc n) s =
     (if s = '']'' then Some []
      else
        (case expect '','' s of
           None \<Rightarrow> None
         | Some s1 \<Rightarrow>
             (case read_row s1 of
                None \<Rightarrow> None
              | Some (r, s2) \<Rightarrow>
                  (case read_more n s2 of
                     None \<Rightarrow> None
                   | Some rs \<Rightarrow> Some (r # rs)))))"

definition JSON_parse :: "string \<Rightarrow> restaurant list option" where
  "JSON_parse s =
     (case expect ''['' s of
        None \<Rightarrow> None
      | Some s1 \<Rightarrow>
          if s1 = '']'' then Some []
          else
            (case read_row s1 of
               None \<Rightarrow> None
             | Some (r, s2) \<Rightarrow>
                 (case read_more (length s) s2 of
                    None \<Rightarrow> None
                  | Some rs \<Rightarrow> Some (r # rs))))"

subsection \<open>Redis and the table\<close>

text \<open>
  The state the handlers work on. Redis maps a key to its value and the time at which
  the entry expires; \<open>SETEX key seconds value\<close> stores an entry that is served while
  \<open>now < time of the call + seconds\<close> and is absent afterwards, whether or not it has been
  reclaimed. The table is \<open>None\<close> until \<open>CREATE TABLE IF NOT EXISTS\<close> has run. Either store
  may be unreachable, and a call to it rejects then. \<open>selects\<close> counts the
  \<open>SELECT * FROM restaurants\<close> queries issued so far: the loads from the backing store.
\<close>

record rs_state =
  redis_up :: bool
  entries :: "string \<rightharpoonup> string \<times> nat"
  db_up :: bool
  restaurants :: "restaurant list option"
  selects :: nat

definition client_get :: "rs_state \<Rightarrow> nat \<Rightarrow> string \<Rightarrow> failure + string option" where
  "client_get st now k =
     (if \<not> redis_up st then Inl RedisError
      else Inr (case entries st k of
                  None \<Rightarrow> None
                | Some (v, expiry) \<Rightarrow> if now < expiry then Some v else None))"

definition client_setEx :: "rs_state \<Rightarrow> nat \<Rightarrow> string \<Rightarrow> nat \<Rightarrow> string \<Rightarrow> failure + rs_state" where
  "client_setEx st now k seconds v =
     (if \<not> redis_up st then Inl RedisError
      else Inr (st\<lparr>entries := (entries st)(k \<mapsto> (v, now + seconds))\<rparr>))"

definition db_create_table :: "rs_state \<Rightarrow> failure + rs_state" where
  "db_create_table st =
     (if \<not> db_up st then Inl DbError
      else Inr (case restaurants st of
                  None \<Rightarrow> st\<lparr>restaurants := Some []\<rparr>
                | Some rows \<Rightarrow> st))"

definition db_insert :: "rs_state \<Rightarrow> restaurant \<Rightarrow> failure + rs_state" where
  "db_insert st r =
     (if \<not> db_up st then Inl DbError
      else (case restaurants st of
              None \<Rightarrow> Inl DbError
            | Some rows \<Rightarrow> Inr (st\<lparr>restaurants := Some (rows @ [r])\<rparr>)))"

definition db_select :: "rs_state \<Rightarrow> (failure + restaurant list) \<times> rs_state" where
  "db_select st =
     (let st' = st\<lparr>selects := selects st + 1\<rparr> in
      if \<not> db_up st then (Inl DbError, st')
      else (case restaurants st of
              None \<Rightarrow> (Inl DbError, st')
            | Some rows \<Rightarrow> (Inr rows, st')))"

subsection \<open>The handlers\<close>

text \<open>
  \<open>POST /restaurants\<close>: create the table if need be, insert a row under a fresh id
  (\<open>uuid\<close> is what \<open>uuid()\<close> returned) and answer with the id. \<open>name\<close> is the text bound
  for \<open>req.body.name\<close>, \<open>None\<close> when the field is missing or \<open>null\<close>.
\<close>

definition post_restaurants ::
  "string \<Rightarrow> string option \<Rightarrow> rs_state \<Rightarrow> (failure + (string \<times> string) list response) \<times> rs_state" where
  "post_restaurants uuid name st =
     (case db_create_table st of
        Inl e \<Rightarrow> (Inl e, st)
      | Inr st1 \<Rightarrow>
          (case db_insert st1 \<lparr>rid = Some uuid, rname = name\<rparr> of
             Inl e \<Rightarrow> (Inl e, st1)
           | Inr st2 \<Rightarrow> (Inr (Json [(''id'', uuid)]), st2)))"


definition load_and_store ::
  "nat \<Rightarrow> rs_state \<Rightarrow> (failure + restaurant list response) \<times> rs_state" where
  "load_and_store now st =
     (case db_select st of
        (Inl e, st1) \<Rightarrow> (Inl e, st1)
      | (Inr rows, st1) \<Rightarrow>
          (case client_setEx st1 now ''restaurants'' 60 (JSON_stringify rows) of
             Inl e \<Rightarrow> (Inl e, st1)
           | Inr st2 \<Rightarrow> (Inr (Json rows), st2)))"

definition get_restaurants ::
  "nat \<Rightarrow> rs_state \<Rightarrow> (failure + restaurant list response) \<times> rs_state" where
  "get_restaurants now st =
     (case client_get st now ''restaurants'' of
        Inl e \<Rightarrow> (Inl e, st)
      | Inr cache \<Rightarrow>
          (case cache of
             None \<Rightarrow> load_and_store now st
           | Some c \<Rightarrow>
               if c \<noteq> [] then
                 (case JSON_parse c of
                    None \<Rightarrow> (Inl SyntaxError, st)
                  | Some v \<Rightarrow> (Inr (Json v), st))
               else load_and_store now st))"

subsection \<open>Calls that overlap\<close>

text \<open>
  A handler gives way to other requests at every \<open>await\<close>. A call in progress is at one
  of its three awaits, or has ended; a step runs it up to the next one. A schedule says
  which call moves next and at what time.
\<close>

datatype call =
    Start
  | Missed
  | Loaded "restaurant list"
  | Responded "restaurant list response"
  | Threw failure

fun step :: "nat \<Rightarrow> rs_state \<Rightarrow> call \<Rightarrow> call \<times> rs_state" where
  "step now st Start =
     (case client_get st now ''restaurants'' of
        Inl e \<Rightarrow> (Threw e, st)
      | Inr cache \<Rightarrow>
          (case cache of
             None \<Rightarrow> (Missed, st)
           | Some c \<Rightarrow>
               if c \<noteq> [] then
                 (case JSON_parse c of
                    None \<Rightarrow> (Threw SyntaxError, st)
                  | Some v \<Rightarrow> (Responded (Json v), st))
               else (Missed, st)))"
| "step now st Missed =
     (case db_select st of
        (Inl e, st1) \<Rightarrow> (Threw e, st1)
      | (Inr rows, st1) \<Rightarrow> (Loaded rows, st1))"
| "step now st (Loaded rows) =
     (case client_setEx st now ''restaurants'' 60 (JSON_stringify rows) of
        Inl e \<Rightarrow> (Threw e, st)
      | Inr st2 \<Rightarrow> (Responded (Json rows), st2))"
| "step now st (Responded r) = (Responded r, st)"
| "step now st (Threw e) = (Threw e, st)"

fun run :: "(nat \<times> nat) list \<Rightarrow> call list \<times> rs_state \<Rightarrow> call list \<times> rs_state" where
  "run [] cfg = cfg"
| "run ((i, now) # schedule) (calls, st) =
     (if i < length calls
      then (case step now st (calls ! i) of
              (c, st') \<Rightarrow> run schedule (calls[i := c], st'))
      else run schedule (calls, st))"

definition outcome :: "call \<Rightarrow> (failure + restaurant list response) option" where
  "outcome c = (case c of Responded r \<Rightarrow> Some (Inr r) | Threw e \<Rightarrow> Some (Inl e) | _ \<Rightarrow> None)"

subsection \<open>States the service reaches\<close>

text \<open>
  From a store that holds nothing under the key, by calls of the two handlers, whole or
  interleaved, and by outages of Redis and the database.
\<close>

inductive reachable :: "rs_state \<Rightarrow> bool" where
  start: "entries st ''restaurants'' = None \<Longrightarrow> reachable st"
| get: "reachable st \<Longrightarrow> reachable (snd (get_restaurants now st))"
| post: "reachable st \<Longrightarrow> reachable (snd (post_restaurants uuid name st))"
| interleaved: "reachable st \<Longrightarrow> reachable (snd (step now st c))"
| outage: "reachable st \<Longrightarrow> reachable (st\<lparr>redis_up := r, db_up := d\<rparr>)"

definition written_by_service :: "rs_state \<Rightarrow> bool" where
  "written_by_service st =
     (case entries st ''restaurants'' of
        None \<Rightarrow> True
      | Some (v, expiry) \<Rightarrow> v \<in> range JSON_stringify)"

subsection \<open>Reads that overlap with writes\<close>

text \<open>
  \<open>POST /restaurants\<close> is served by the same process and gives way at its two awaits
  too, so its queries can fall between the steps of a read. A call of it has begun, has
  created the table, or has ended: it has sent its answer, or a query has rejected.
  \<open>uuid\<close> and \<open>name\<close> are as in \<open>post_restaurants\<close>.
\<close>

datatype creation =
    Begun
  | Created
  | Sent "(string \<times> string) list response"
  | Aborted failure

fun post_step :: "string \<Rightarrow> string option \<Rightarrow> rs_state \<Rightarrow> creation \<Rightarrow> creation \<times> rs_state" where
  "post_step uuid name st Begun =
     (case db_create_table st of
        Inl e \<Rightarrow> (Aborted e, st)
      | Inr st1 \<Rightarrow> (Created, st1))"
| "post_step uuid name st Created =
     (case db_insert st \<lparr>rid = Some uuid, rname = name\<rparr> of
        Inl e \<Rightarrow> (Aborted e, st)
      | Inr st2 \<Rightarrow> (Sent (Json [(''id'', uuid)]), st2))"
| "post_step uuid name st (Sent r) = (Sent r, st)"
| "post_step uuid name st (Aborted e) = (Aborted e, st)"

text \<open>
  An event of the process: the read \<open>i\<close> takes its next step at a time, the write
  \<open>j\<close> takes its next step, or Redis and the database become reachable or unreachable.
  \<open>run_events\<close> runs a list of events on the reads and the writes in progress (a write
  with its id and name) and on the stores.
\<close>

type_synonym post_call = "string \<times> string option \<times> creation"

datatype event = Read nat nat | Write nat | Outage bool bool

fun run_events ::
  "event list \<Rightarrow> call list \<times> post_call list \<times> rs_state \<Rightarrow> call list \<times> post_call list \<times> rs_state" where
  "run_events [] cfg = cfg"
| "run_events (Read i now # later) (calls, posts, st) =
     (if i < length calls
      then (case step now st (calls ! i) of
              (c, st') \<Rightarrow> run_events later (calls[i := c], posts, st'))
      else run_events later (calls, posts, st))"
| "run_events (Write j # later) (calls, posts, st) =
     (if j < length posts
      then (case posts ! j of
              (uuid, name, p) \<Rightarrow>
                (case post_step uuid name st p of
                   (p', st') \<Rightarrow> run_events later (calls, posts[j := (uuid, name, p')], st')))
      else run_events later (calls, posts, st))"
| "run_events (Outage r d # later) (calls, posts, st) =
     run_events later (calls, posts, st\<lparr>redis_up := r, db_up := d\<rparr>)"

text \<open>
  A key is cold at a time when it has no entry or its entry has expired by then. A read
  has its query ahead of it only while it is at its first two awaits. \<open>not_before t0\<close>
  holds of every event but a step of a read earlier than \<open>t0\<close>.
\<close>

fun pending :: "call \<Rightarrow> bool" where
  "pending Start = True"
| "pending Missed = True"
| "pending _ = False"

definition cold :: "rs_state \<Rightarrow> nat \<Rightarrow> bool" where
  "cold st t0 =
     (case entries st ''restaurants'' of None \<Rightarrow> True | Some (v, expiry) \<Rightarrow> expiry \<le> t0)"

fun not_before :: "nat \<Rightarrow> event \<Rightarrow> bool" where
  "not_before t0 (Read i now) = (t0 \<le> now)"
| "not_before t0 (Write j) = True"
| "not_before t0 (Outage r d) = True"

text \<open>
  The handlers never change or remove a row, they append. \<open>extends old new\<close>: the list
  \<open>new\<close> begins with \<open>old\<close>. \<open>grown st st'\<close>: the table of \<open>st'\<close> begins with the
  rows of the table of \<open>st\<close>, if that exists. \<open>between st0 st rows\<close>: the rows are
  those the table held in \<open>st0\<close> followed by rows appended since, that is, they begin
  with the rows of \<open>st0\<close> and the table of \<open>st\<close> begins with them.
\<close>

definition extends :: "'a list \<Rightarrow> 'a list \<Rightarrow> bool" where
  "extends old new = (take (length old) new = old)"

definition table_rows :: "rs_state \<Rightarrow> restaurant list" where
  "table_rows st = (case restaurants st of None \<Rightarrow> [] | Some rows \<Rightarrow> rows)"

definition grown :: "rs_state \<Rightarrow> rs_state \<Rightarrow> bool" where
  "grown st st' =
     (case restaurants st of
        None \<Rightarrow> True
      | Some old \<Rightarrow> (case restaurants st' of None \<Rightarrow> False | Some new \<Rightarrow> extends old new))"

definition between :: "rs_state \<Rightarrow> rs_state \<Rightarrow> restaurant list \<Rightarrow> bool" where
  "between st0 st rows =
     (extends (table_rows st0) rows
      \<and> (case restaurants st of None \<Rightarrow> False | Some cur \<Rightarrow> extends rows cur))"

text \<open>
  The invariant of a run of \<open>n\<close> overlapping reads that starts in \<open>st0\<close> with the key
  cold: the table has only grown; each read has issued at most one query, and none after
  its second await; rows that a read holds or has sent lie between the table of \<open>st0\<close>
  and the present one, and a query has been issued by then; and an entry stored during the
  run holds such rows.
\<close>

definition loaded_ok :: "rs_state \<Rightarrow> rs_state \<Rightarrow> call \<Rightarrow> bool" where
  "loaded_ok st0 st c =
     (case c of
        Loaded rows \<Rightarrow> between st0 st rows \<and> selects st0 < selects st
      | Responded r \<Rightarrow>
          (\<exists>rows. r = Json rows \<and> between st0 st rows) \<and> selects st0 < selects st
      | _ \<Rightarrow> True)"

definition fresh :: "rs_state \<Rightarrow> rs_state \<Rightarrow> bool" where
  "fresh st0 st =
     (selects st0 < selects st \<and>
      (\<exists>rows expiry. entries st ''restaurants'' = Some (JSON_stringify rows, expiry)
                   \<and> between st0 st rows))"

definition inv :: "rs_state \<Rightarrow> nat \<Rightarrow> call list \<times> rs_state \<Rightarrow> bool" where
  "inv st0 n cfg =
     (case cfg of (calls, st) \<Rightarrow>
        length calls = n
      \<and> grown st0 st
      \<and> selects st0 \<le> selects st
      \<and> selects st + length (filter pending calls) \<le> selects st0 + n
      \<and> list_all (loaded_ok st0 st) calls
      \<and> (entries st ''restaurants'' = entries st0 ''restaurants'' \<or> fresh st0 st))"

text \<open>
A second restaurant, for the scenarios.
\<close>

definition second_row :: restaurant where
  "second_row = \<lparr>rid = Some ''r2'', rname = Some ''Idli House''\<rparr>"


text \<open>A database with one restaurant and nothing cached, for the scenarios.\<close>

definition scenario_db :: rs_state where
  "scenario_db =
     \<lparr>redis_up = True, entries = Map.empty, db_up = True,
      restaurants = Some [\<lparr>rid = Some ''r1'', rname = Some ''Dosa Corner''\<rparr>], selects = 0\<rparr>"

section \<open>The JSON body parser\<close>

text \<open>
  \<open>app.use(express.json())\<close> is the first middleware of the gateway and of the payment
  service: it sees every request before a proxy or a route handler does. A request that
  has no body, or whose content type is not JSON, it hands on untouched, the body still on
  the stream (\<open>Unread\<close>). A JSON body it reads to the end and parses. When that succeeds
  the request goes on with \<open>req.body\<close> set and nothing left on the stream (\<open>Parsed\<close>).
  When the text is not a well-formed JSON object or array, or is longer than the parser's
  limit, the parser ends with an error that carries a status, 400 or 413; Express skips
  every later middleware and handler and answers with that status itself (\<open>Rejected\<close>,
  with the status). Which of the three happens is decided by the headers and the raw body
  alone, so a request is taken here with the outcome of reading its body in place of the
  raw body.
\<close>

datatype 'b json_body = Unread | Parsed 'b | Rejected nat

record ('h, 'b) request =
  http_method :: string
  pathname :: string
  headers :: 'h
  body :: "'b json_body"

definition express_json :: "('h, 'b) request \<Rightarrow> nat + ('h, 'b) request" where
  "express_json r = (case body r of Rejected code \<Rightarrow> Inl code | _ \<Rightarrow> Inr r)"

definition handed_on :: "('h, 'b) request \<Rightarrow> bool" where
  "handed_on r = (case express_json r of Inl code \<Rightarrow> False | Inr r' \<Rightarrow> True)"

section \<open>API gateway\<close>

text \<open>
  \<open>app.use(path, createProxyMiddleware(options))\<close> mounts a proxy at a path. Express tries
  the mounts in the order of registration and hands the request to the first one whose
  path matches: the pathname of the request, compared without regard to case, starts with
  the mount path, and what follows is empty or starts with a slash. A request that no
  mount takes gets Express's 404.
\<close>

record proxy_options =
  target :: string
  changeOrigin :: bool
  timeout :: "nat option"
  proxyTimeout :: "nat option"

definition gateway_mounts :: "(string \<times> proxy_options) list" where
  "gateway_mounts =
     [(''/auth'', \<lparr>target = ''http://auth-service:4001'', changeOrigin = True,
                   timeout = Some 60000, proxyTimeout = Some 60000\<rparr>),
      (''/restaurants'', \<lparr>target = ''http://restaurant-service:4002'', changeOrigin = True,
                          timeout = None, proxyTimeout = None\<rparr>),
      (''/orders'', \<lparr>target = ''http://order-service:4003'', changeOrigin = True,
                     timeout = None, proxyTimeout = None\<rparr>),
      (''/payments'', \<lparr>target = ''http://payment-service:4004'', changeOrigin = True,
                       timeout = None, proxyTimeout = None\<rparr>)]"

definition lower :: "char \<Rightarrow> char" where
  "lower c = (if 65 \<le> (of_char c :: nat) \<and> (of_char c :: nat) \<le> 90
              then char_of ((of_char c :: nat) + 32) else c)"

fun after_prefix :: "string \<Rightarrow> string \<Rightarrow> string option" where
  "after_prefix [] s = Some s"
| "after_prefix (c # cs) [] = None"
| "after_prefix (c # cs) (d # ds) = (if c = d then after_prefix cs ds else None)"

definition mount_matches :: "string \<Rightarrow> string \<Rightarrow> bool" where
  "mount_matches mount path =
     (case after_prefix mount (map lower path) of
        None \<Rightarrow> False
      | Some rest \<Rightarrow> (case rest of [] \<Rightarrow> True | c # _ \<Rightarrow> c = CHR ''/''))"

fun route :: "(string \<times> 'a) list \<Rightarrow> string \<Rightarrow> 'a option" where
  "route [] path = None"
| "route ((mount, handler) # later) path =
     (if mount_matches mount path then Some handler else route later path)"

text \<open>
  Resolution by the longest matching prefix, as a router with a table of prefixes would
  do it; among prefixes of the same length the one registered first wins.
\<close>

fun longest_prefix_route :: "(string \<times> 'a) list \<Rightarrow> string \<Rightarrow> (string \<times> 'a) option" where
  "longest_prefix_route [] path = None"
| "longest_prefix_route ((mount, service) # later) path =
     (case longest_prefix_route later path of
        None \<Rightarrow> if mount_matches mount path then Some (mount, service) else None
      | Some (mount', service') \<Rightarrow>
          if mount_matches mount path \<and> length mount' \<le> length mount
          then Some (mount, service) else Some (mount', service'))"

text \<open>
  The proxy sends every request it is given to its target. It relays the target's answer;
  when the attempt fails (the target cannot be reached, or gives no answer within
  \<open>proxyTimeout\<close> where that is set) it answers with an error of its own; and while the
  attempt is pending the caller has no answer. How an attempt ends is the environment's:
  \<open>upstream target r\<close>, for the request as the proxy has it. After the parser has read a
  JSON body the proxy finds nothing on the stream to send on, and what the target makes of
  a request whose body does not arrive is part of \<open>upstream\<close>. \<open>sent_to\<close> records the
  transport attempt.
\<close>

datatype 'r transport = Answered 'r | Failed | Pending

datatype 'r gateway_response = Relayed 'r | ProxyError | NoAnswer | NotFound | Refused nat

definition relay :: "'r transport \<Rightarrow> 'r gateway_response" where
  "relay attempt =
     (case attempt of
        Answered r \<Rightarrow> Relayed r
      | Failed \<Rightarrow> ProxyError
      | Pending \<Rightarrow> NoAnswer)"

record 'r served =
  sent_to :: "string option"
  answer :: "'r gateway_response"

text \<open>
  The gateway: the body parser, then the four mounts. It holds no variable that a request
  changes.
\<close>

definition gateway ::
  "(string \<Rightarrow> ('h, 'b) request \<Rightarrow> 'r transport) \<Rightarrow> ('h, 'b) request \<Rightarrow> 'r served" where
  "gateway upstream r =
     (case express_json r of
        Inl code \<Rightarrow> \<lparr>sent_to = None, answer = Refused code\<rparr>
      | Inr r' \<Rightarrow>
          (case route gateway_mounts (pathname r') of
             None \<Rightarrow> \<lparr>sent_to = None, answer = NotFound\<rparr>
           | Some options \<Rightarrow>
               \<lparr>sent_to = Some (target options),
                answer = relay (upstream (target options) r')\<rparr>))"

text \<open>
  Requests as they arrive: the time, the request, and how the services behind the gateway
  answer at that moment. The gateway reads no clock and keeps nothing from one request to
  the next, so what the process does with a sequence of arrivals is the gateway applied to
  each of them.
\<close>

record ('h, 'b, 'r) arrival =
  at :: nat
  req :: "('h, 'b) request"
  upstream :: "string \<Rightarrow> ('h, 'b) request \<Rightarrow> 'r transport"

fun gateway_log :: "('h, 'b, 'r) arrival list \<Rightarrow> 'r served list" where
  "gateway_log [] = []"
| "gateway_log (a # later) = gateway (upstream a) (req a) # gateway_log later"

text \<open>
  For the scenarios: services that cannot be reached, services that answer, services that
  answer once the body of a request has arrived and so never answer a request whose body
  the parser has read, and a request for the orders.
\<close>

definition unreachable :: "string \<Rightarrow> (unit, string) request \<Rightarrow> unit transport" where
  "unreachable service r = Failed"

definition answering :: "string \<Rightarrow> (unit, string) request \<Rightarrow> unit transport" where
  "answering service r = Answered ()"

definition waits_for_body :: "string \<Rightarrow> (unit, string) request \<Rightarrow> unit transport" where
  "waits_for_body service r = (case body r of Parsed v \<Rightarrow> Pending | _ \<Rightarrow> Answered ())"

definition get_orders :: "(unit, string) request" where
  "get_orders = \<lparr>http_method = ''GET'', pathname = ''/orders'', headers = (), body = Unread\<rparr>"

definition failing_order_call :: "nat \<Rightarrow> (unit, string, unit) arrival" where
  "failing_order_call t = \<lparr>at = t, req = get_orders, upstream = unreachable\<rparr>"

section \<open>Payment service\<close>

text \<open>
  \<open>app.post("/payments", handler)\<close>: the handler reads nothing of the request.
\<close>

definition post_payments :: "('h, 'b) request \<Rightarrow> (string \<times> string) list response" where
  "post_payments r = Json [(''status'', ''PAYMENT_SUCCESS'')]"

text \<open>
  The route takes a \<open>POST\<close> request whose pathname is \<open>/payments\<close>, compared without
  regard to case, with or without a slash at the end. The service runs the body parser,
  then the logger, which changes nothing, then the route. A request that the route does not
  take gets an answer of Express itself: to \<open>OPTIONS\<close> on the route's path the methods
  the path allows, and 404 otherwise. \<open>Handled\<close> is what the handler sent, \<open>Default\<close> an
  answer of Express with that status.
\<close>

definition route_matches :: "string \<Rightarrow> string \<Rightarrow> bool" where
  "route_matches route_path path =
     (map lower path = route_path \<or> map lower path = route_path @ ''/'')"

datatype 'a reply = Handled 'a | Allow "string list" | Default nat

definition payment_service :: "('h, 'b) request \<Rightarrow> (string \<times> string) list response reply" where
  "payment_service r =
     (case express_json r of
        Inl code \<Rightarrow> Default code
      | Inr r' \<Rightarrow>
          if route_matches ''/payments'' (pathname r') then
            if http_method r' = ''POST'' then Handled (post_payments r')
            else if http_method r' = ''OPTIONS'' then Allow [''POST'']
            else Default 404
          else Default 404)"

section \<open>Auth service\<close>

text \<open>
  The table \<open>users(id, email, password, role)\<close> exists once the service listens.
  \<open>bcrypt.compareSync\<close> and \<open>jwt.sign\<close> are the libraries' functions, taken as they are:
  \<open>compareSync\<close> on two strings, \<open>sign\<close> on the payload \<open>{id, role}\<close> and the key.
\<close>

record user =
  user_id :: string
  email :: string
  password :: string
  role :: string

record auth_db =
  auth_db_up :: bool
  users :: "user list"

record login_body =
  body_email :: "string option"
  body_password :: "string option"

record crypto =
  compareSync :: "string \<Rightarrow> string \<Rightarrow> bool"
  sign :: "string \<times> string \<Rightarrow> string \<Rightarrow> string"

text \<open>
  \<open>SELECT * FROM users WHERE email=$1\<close>; a missing or \<open>null\<close> email matches no row.
  \<open>compareSync\<close> throws on a password that is not a string, \<open>sign\<close> on a missing or
  empty key.
\<close>

definition select_users_by_email :: "auth_db \<Rightarrow> string option \<Rightarrow> failure + user list" where
  "select_users_by_email db e =
     (if \<not> auth_db_up db then Inl DbError
      else Inr (case e of
                  None \<Rightarrow> []
                | Some address \<Rightarrow> filter (\<lambda>u. email u = address) (users db)))"

definition bcrypt_compareSync :: "crypto \<Rightarrow> string option \<Rightarrow> string \<Rightarrow> failure + bool" where
  "bcrypt_compareSync lib s hash =
     (case s of
        None \<Rightarrow> Inl TypeError
      | Some pw \<Rightarrow> Inr (compareSync lib pw hash))"

definition jwt_sign :: "crypto \<Rightarrow> string \<times> string \<Rightarrow> string option \<Rightarrow> failure + string" where
  "jwt_sign lib payload secret =
     (case secret of
        None \<Rightarrow> Inl JwtError
      | Some key \<Rightarrow> if key = [] then Inl JwtError else Inr (sign lib payload key))"

definition login ::
  "crypto \<Rightarrow> string option \<Rightarrow> auth_db \<Rightarrow> login_body \<Rightarrow> failure + (string \<times> string) list response" where
  "login lib JWT_SECRET db req_body =
     (case select_users_by_email db (body_email req_body) of
        Inl e \<Rightarrow> Inl e
      | Inr rows \<Rightarrow>
          (case rows of
             [] \<Rightarrow> Inr (SendStatus 401)
           | u # _ \<Rightarrow>
               (case bcrypt_compareSync lib (body_password req_body) (password u) of
                  Inl e \<Rightarrow> Inl e
                | Inr same \<Rightarrow>
                    if \<not> same then Inr (SendStatus 401)
                    else
                      (case jwt_sign lib (user_id u, role u) JWT_SECRET of
                         Inl e \<Rightarrow> Inl e
                       | Inr token \<Rightarrow> Inr (Json [(''token'', token)])))))"

text \<open>
  For the statement of the login property: the rows with the given email, whether a
  given password matches a row's hash, whether a login is to be rejected (no row, or the
  first row's hash does not match), and the token a response carries.
\<close>

definition rows_with_email :: "auth_db \<Rightarrow> string option \<Rightarrow> user list" where
  "rows_with_email db e = filter (\<lambda>u. Some (email u) = e) (users db)"

definition password_matches :: "crypto \<Rightarrow> string option \<Rightarrow> user \<Rightarrow> bool" where
  "password_matches lib given u =
     (case given of None \<Rightarrow> False | Some pw \<Rightarrow> compareSync lib pw (password u))"

definition rejected :: "crypto \<Rightarrow> auth_db \<Rightarrow> login_body \<Rightarrow> bool" where
  "rejected lib db req_body =
     (case rows_with_email db (body_email req_body) of
        [] \<Rightarrow> True
      | u # _ \<Rightarrow> \<not> password_matches lib (body_password req_body) u)"

fun token_of :: "(string \<times> string) list response \<Rightarrow> string option" where
  "token_of (Json obj) = map_of obj ''token''"
| "token_of (SendStatus code) = None"

text \<open>A stand-in for the two libraries and a user, for concrete runs.\<close>

definition toy_crypto :: crypto where
  "toy_crypto = \<lparr>compareSync = (\<lambda>pw hash. hash = ''$2a$08$'' @ pw),
                 sign = (\<lambda>(i, r) key. i @ ''.'' @ r @ ''.'' @ key)\<rparr>"

definition alice :: user where
  "alice = \<lparr>user_id = ''u1'', email = ''alice@example.com'',
            password = ''$2a$08$secret'', role = ''USER''\<rparr>"

section \<open>Order service\<close>

text \<open>
  \<open>POST /orders\<close> writes a row to \<open>orders(id UUID, status TEXT)\<close> and adds a job to the
  queue \<open>order-events\<close>. \<open>uuid\<close> is what \<open>uuid()\<close> returned.
\<close>

record order_row =
  order_id :: string
  status :: string

record job =
  job_name :: string
  job_orderId :: string

record os_state =
  orders_db_up :: bool
  orders :: "order_row list option"
  queue_up :: bool
  jobs :: "job list"

definition create_orders_table :: "os_state \<Rightarrow> failure + os_state" where
  "create_orders_table st =
     (if \<not> orders_db_up st then Inl DbError
      else Inr (case orders st of
                  None \<Rightarrow> st\<lparr>orders := Some []\<rparr>
                | Some rows \<Rightarrow> st))"

definition insert_order :: "os_state \<Rightarrow> order_row \<Rightarrow> failure + os_state" where
  "insert_order st r =
     (if \<not> orders_db_up st then Inl DbError
      else (case orders st of
              None \<Rightarrow> Inl DbError
            | Some rows \<Rightarrow> Inr (st\<lparr>orders := Some (rows @ [r])\<rparr>)))"

definition orderQueue_add :: "os_state \<Rightarrow> string \<Rightarrow> string \<Rightarrow> failure + os_state" where
  "orderQueue_add st name orderId =
     (if \<not> queue_up st then Inl QueueError
      else Inr (st\<lparr>jobs := jobs st @ [\<lparr>job_name = name, job_orderId = orderId\<rparr>]\<rparr>))"

definition post_orders ::
  "string \<Rightarrow> os_state \<Rightarrow> (failure + (string \<times> string) list response) \<times> os_state" where
  "post_orders uuid st =
     (case create_orders_table st of
        Inl e \<Rightarrow> (Inl e, st)
      | Inr st1 \<Rightarrow>
          (case insert_order st1 \<lparr>order_id = uuid, status = ''PLACED''\<rparr> of
             Inl e \<Rightarrow> (Inl e, st1)
           | Inr st2 \<Rightarrow>
               (case orderQueue_add st2 ''order.created'' uuid of
                  Inl e \<Rightarrow> (Inl e, st2)
                | Inr st3 \<Rightarrow> (Inr (Json [(''orderId'', uuid), (''status'', ''PLACED'')]), st3))))"

section \<open>Properties of the restaurant service\<close>

subsection \<open>Reading back what was written\<close>

lemma hex_value_digit: "n < 16 \<Longrightarrow> hex_value (hex_digit n) = Some n"
  by (simp add: hex_digit_def hex_value_def Let_def)

lemma hex_value_zero: "hex_value (CHR ''0'') = Some 0"
  by (simp add: hex_value_def)

lemma unicode_escape_digits:
  "(of_char c :: nat) < 32 \<Longrightarrow>
   unicode_escape (CHR ''0'') (CHR ''0'') (hex_digit (of_char c div 16)) (hex_digit (of_char c mod 16)) = Some c"
proof -
  assume lt: "(of_char c :: nat) < 32"
  have h: "hex_value (hex_digit (of_char c div 16)) = Some (of_char c div 16)"
    using lt by (intro hex_value_digit) simp
  have l: "hex_value (hex_digit (of_char c mod 16)) = Some (of_char c mod 16)"
    by (intro hex_value_digit) simp
  show ?thesis
    by (simp add: unicode_escape_def h l hex_value_zero)
qed

lemma read_string_esc: "read_string (esc c @ rest) = cons_fst c (read_string rest)"
proof (cases "(of_char c :: nat) < 32")
  case True
  then show ?thesis
    by (auto simp: esc_def unesc_def unicode_escape_digits)
next
  case False
  then show ?thesis
    by (auto simp: esc_def unesc_def)
qed

lemma read_string_quote:
  "read_string (concat (map esc s) @ CHR 0x22 # rest) = Some (s, rest)"
proof (induction s)
  case Nil
  show ?case by simp
next
  case (Cons c s)
  have "read_string (concat (map esc (c # s)) @ CHR 0x22 # rest)
        = read_string (esc c @ (concat (map esc s) @ CHR 0x22 # rest))"
    by simp
  also have "\<dots> = cons_fst c (read_string (concat (map esc s) @ CHR 0x22 # rest))"
    by (rule read_string_esc)
  finally show ?case
    by (simp add: Cons.IH cons_fst_def)
qed

lemma expect_append: "expect p (p @ s) = Some s"
  by (induction p) simp_all

lemma expect_null_quote: "expect ''null'' (quote v @ rest) = None"
  by (simp add: quote_def)

lemma read_value_stringify:
  "read_value (stringify_value v @ rest) = Some (v, rest)"
proof (cases v)
  case None
  have "expect ''null'' (''null'' @ rest) = Some rest" by (rule expect_append)
  then show ?thesis using None by (simp add: read_value_def)
next
  case (Some s)
  then show ?thesis
    using read_string_quote [of s rest]
    by (simp add: read_value_def expect_null_quote)  (simp add: quote_def)
qed

lemma read_row_stringify: "read_row (stringify_row r @ rest) = Some (r, rest)"
proof -
  let ?p1 = "CHR ''{'' # quote ''id'' @ '':''"
  let ?p2 = "'','' @ quote ''name'' @ '':''"
  let ?t2 = "?p2 @ stringify_value (rname r) @ ''}'' @ rest"
  have split: "stringify_row r @ rest = ?p1 @ stringify_value (rid r) @ ?t2"
    by (simp add: stringify_row_def)
  have e1: "expect ?p1 (stringify_row r @ rest) = Some (stringify_value (rid r) @ ?t2)"
    unfolding split by (rule expect_append)
  have v1: "read_value (stringify_value (rid r) @ ?t2) = Some (rid r, ?t2)"
    by (rule read_value_stringify)
  have e2: "expect ?p2 ?t2 = Some (stringify_value (rname r) @ ''}'' @ rest)"
    by (rule expect_append)
  have v2: "read_value (stringify_value (rname r) @ ''}'' @ rest) = Some (rname r, ''}'' @ rest)"
    by (rule read_value_stringify)
  have e3: "expect ''}'' (''}'' @ rest) = Some rest"
    by (rule expect_append)
  show ?thesis
    unfolding read_row_def e1 option.case v1 prod.case e2 v2 e3 by simp
qed

lemma stringify_row_head: "\<exists>t. stringify_row r = CHR ''{'' # t"
  by (simp add: stringify_row_def)

lemma read_more_join:
  "length rs < n \<Longrightarrow> read_more n (concat (map (\<lambda>r. '','' @ stringify_row r) rs) @ '']'') = Some rs"
proof (induction rs arbitrary: n)
  case Nil
  then show ?case by (cases n) simp_all
next
  case (Cons r rs)
  then obtain m where n: "n = Suc m" and m: "length rs < m"
    by (cases n) auto
  let ?tail = "concat (map (\<lambda>r. '','' @ stringify_row r) rs) @ '']''"
  obtain t where t: "stringify_row r = CHR ''{'' # t"
    using stringify_row_head by blast
  have row: "read_row (stringify_row r @ ?tail) = Some (r, ?tail)"
    by (rule read_row_stringify)
  have "read_more (Suc m) ('','' @ stringify_row r @ ?tail) = Some (r # rs)"
    using row Cons.IH [OF m] by (simp add: t)
  then show ?case by (simp add: n)
qed

lemma join_rows_Cons:
  "join_rows (r # rs) = stringify_row r @ concat (map (\<lambda>r. '','' @ stringify_row r) rs)"
  by (induction rs arbitrary: r) simp_all

lemma length_stringify_row: "Suc 0 \<le> length (stringify_row r)"
  by (simp add: stringify_row_def)

lemma length_join_rows: "length rs \<le> length (join_rows rs)"
proof (induction rs rule: join_rows.induct)
  case 1
  show ?case by simp
next
  case (2 r)
  show ?case using length_stringify_row [of r] by simp
next
  case (3 r v va)
  then show ?case using length_stringify_row [of r] by simp
qed

lemma JSON_roundtrip: "JSON_parse (JSON_stringify rows) = Some rows"
proof (cases rows)
  case Nil
  then show ?thesis by (simp add: JSON_parse_def JSON_stringify_def)
next
  case (Cons r rs)
  let ?tail = "concat (map (\<lambda>r. '','' @ stringify_row r) rs) @ '']''"
  obtain t where t: "stringify_row r = CHR ''{'' # t"
    using stringify_row_head by blast
  have shape: "JSON_stringify rows = ''['' @ stringify_row r @ ?tail"
    by (simp add: JSON_stringify_def Cons join_rows_Cons)
  have row: "read_row (stringify_row r @ ?tail) = Some (r, ?tail)"
    by (rule read_row_stringify)
  have "length rs < length (JSON_stringify rows)"
    using length_join_rows [of rows] by (simp add: JSON_stringify_def Cons)
  then have more: "read_more (length (JSON_stringify rows)) ?tail = Some rs"
    by (rule read_more_join)
  have e: "expect ''['' (JSON_stringify rows) = Some (stringify_row r @ ?tail)"
    unfolding shape by (rule expect_append)
  have ne: "stringify_row r @ ?tail \<noteq> '']''"
    by (simp add: t)
  show ?thesis
    unfolding JSON_parse_def e option.case using ne row more by (simp add: Cons)
qed

lemma JSON_stringify_truthy: "JSON_stringify rows \<noteq> []"
  by (simp add: JSON_stringify_def)

lemma JSON_stringify_inject: "JSON_stringify a = JSON_stringify b \<Longrightarrow> a = b"
  by (metis JSON_roundtrip option.inject)

subsection \<open>What the cache holds\<close>

lemma step_written: "written_by_service st \<Longrightarrow> written_by_service (snd (step now st c))"
  by (cases c)
     (auto simp: written_by_service_def client_get_def client_setEx_def db_select_def Let_def
                 JSON_stringify_truthy
           split: option.splits if_splits sum.splits prod.splits)

lemma get_written: "written_by_service st \<Longrightarrow> written_by_service (snd (get_restaurants now st))"
  by (auto simp: written_by_service_def get_restaurants_def load_and_store_def
                 client_get_def client_setEx_def db_select_def Let_def JSON_stringify_truthy
           split: option.splits if_splits sum.splits prod.splits)

lemma post_written: "written_by_service st \<Longrightarrow> written_by_service (snd (post_restaurants uuid name st))"
  by (auto simp: written_by_service_def post_restaurants_def db_create_table_def db_insert_def
           split: option.splits if_splits sum.splits prod.splits)

lemma reachable_written: "reachable st \<Longrightarrow> written_by_service st"
proof (induction rule: reachable.induct)
  case (start st)
  then show ?case by (simp add: written_by_service_def)
next
  case (get st now)
  then show ?case by (simp add: get_written)
next
  case (post st uuid name)
  then show ?case by (simp add: post_written)
next
  case (interleaved st now c)
  then show ?case by (simp add: step_written)
next
  case (outage st r d)
  then show ?case by (simp add: written_by_service_def)
qed

text \<open>A call that nothing interleaves with is the handler run in one go.\<close>

lemma uninterleaved_call:
  "\<exists>c. run [(0, now), (0, now), (0, now)] ([Start], st) = ([c], snd (get_restaurants now st))
      \<and> outcome c = Some (fst (get_restaurants now st))"
  by (auto simp: get_restaurants_def load_and_store_def outcome_def client_get_def
                 client_setEx_def db_select_def Let_def
           split: option.splits)

lemma load_and_store_ok:
  assumes "redis_up st" "db_up st" "restaurants st = Some rows"
  shows "load_and_store now st =
           (Inr (Json rows),
            st\<lparr>selects := selects st + 1,
                entries := (entries st)(''restaurants'' \<mapsto> (JSON_stringify rows, now + 60))\<rparr>)"
  using assms by (simp add: load_and_store_def db_select_def client_setEx_def Let_def)

lemma get_restaurants_miss:
  assumes "client_get st now ''restaurants'' = Inr None"
  shows "get_restaurants now st = load_and_store now st"
  using assms by (simp add: get_restaurants_def)




lemma filter_update_count:
  "i < length xs \<Longrightarrow>
   length (filter P (xs[i := y])) + (if P (xs ! i) then 1 else 0)
     = length (filter P xs) + (if P y then 1 else 0)"
proof (induction xs arbitrary: i)
  case Nil
  then show ?case by simp
next
  case (Cons x xs)
  show ?case
  proof (cases i)
    case 0
    then show ?thesis by simp
  next
    case (Suc j)
    with Cons.prems have "j < length xs" by simp
    from Cons.IH [OF this] show ?thesis by (simp add: Suc)
  qed
qed

lemma list_all_update:
  "list_all P xs \<Longrightarrow> P y \<Longrightarrow> list_all P (xs[i := y])"
  by (induction xs arbitrary: i) (auto split: nat.splits)

subsection \<open>Cache hits\<close>

text \<open>
  C1. In every state the service reaches, when the key \<open>restaurants\<close> has a live
  (non-expired) entry, \<open>GET /restaurants\<close> answers with the cached rows, the rows whose
  JSON text the entry holds, and leaves the state as it was: no query is issued, and the
  count of loads, which is part of the state, is unchanged. The same holds for the first
  step of a call that overlaps with others: it responds at once.
\<close>

theorem cache_hit_skips_loader:
  assumes "reachable st"
    and "client_get st now ''restaurants'' = Inr (Some c)"
  shows "\<exists>rows. c = JSON_stringify rows
              \<and> get_restaurants now st = (Inr (Json rows), st)
              \<and> step now st Start = (Responded (Json rows), st)"
proof -
  from assms(2) obtain expiry where e: "entries st ''restaurants'' = Some (c, expiry)"
    by (auto simp: client_get_def split: if_splits option.splits)
  with reachable_written [OF assms(1)] obtain rows where c: "c = JSON_stringify rows"
    by (auto simp: written_by_service_def)
  have "get_restaurants now st = (Inr (Json rows), st)"
    using assms(2) by (simp add: get_restaurants_def c JSON_roundtrip JSON_stringify_truthy)
  moreover have "step now st Start = (Responded (Json rows), st)"
    using assms(2) by (simp add: c JSON_roundtrip JSON_stringify_truthy)
  ultimately show ?thesis using c by blast
qed

theorem cache_hit_skips_loader_witness:
  "reachable (snd (get_restaurants 0 scenario_db))
   \<and> client_get (snd (get_restaurants 0 scenario_db)) 30 ''restaurants''
       = Inr (Some (JSON_stringify [\<lparr>rid = Some ''r1'', rname = Some ''Dosa Corner''\<rparr>]))
   \<and> get_restaurants 30 (snd (get_restaurants 0 scenario_db))
       = (Inr (Json [\<lparr>rid = Some ''r1'', rname = Some ''Dosa Corner''\<rparr>]),
          snd (get_restaurants 0 scenario_db))
   \<and> selects (snd (get_restaurants 30 (snd (get_restaurants 0 scenario_db))))
       = selects (snd (get_restaurants 0 scenario_db))"
proof -
  let ?hot = "snd (get_restaurants 0 scenario_db)"
  have "reachable scenario_db"
    by (rule reachable.start) (simp add: scenario_db_def)
  then have r: "reachable ?hot"
    by (rule reachable.get)
  have g: "client_get ?hot 30 ''restaurants''
             = Inr (Some (JSON_stringify [\<lparr>rid = Some ''r1'', rname = Some ''Dosa Corner''\<rparr>]))"
    by (simp add: scenario_db_def get_restaurants_def load_and_store_def client_get_def
                  client_setEx_def db_select_def Let_def)
  from cache_hit_skips_loader [OF r g] obtain rows
    where "JSON_stringify [\<lparr>rid = Some ''r1'', rname = Some ''Dosa Corner''\<rparr>] = JSON_stringify rows"
      and "get_restaurants 30 ?hot = (Inr (Json rows), ?hot)"
      and "step 30 ?hot Start = (Responded (Json rows), ?hot)"
    by blast
  with r g show ?thesis
    by (auto dest: JSON_stringify_inject)
qed

subsection \<open>Time to live\<close>

text \<open>
  C2. With Redis and the database up and the key cold at \<open>t0\<close>, a read at \<open>t0\<close> loads the
  rows once and stores them to expire at \<open>t0 + 60\<close>. Every read before \<open>t0 + 60\<close>
  answers with the cached rows without loading; every read from \<open>t0 + 60\<close> on loads
  again, exactly as it would with the entry removed. The witness is the scenario with
  reads at 0, 30 and 61 seconds.
\<close>

theorem cache_entry_lives_60_seconds:
  assumes up: "redis_up st" "db_up st"
    and table: "restaurants st = Some rows"
    and cold: "client_get st t0 ''restaurants'' = Inr None"
    and s1: "s1 = snd (get_restaurants t0 st)"
  shows "get_restaurants t0 st = (Inr (Json rows), s1)
       \<and> selects s1 = selects st + 1
       \<and> entries s1 ''restaurants'' = Some (JSON_stringify rows, t0 + 60)
       \<and> (\<forall>t. t < t0 + 60 \<longrightarrow> get_restaurants t s1 = (Inr (Json rows), s1))
       \<and> (\<forall>t. t0 + 60 \<le> t \<longrightarrow>
              fst (get_restaurants t s1) = Inr (Json rows)
            \<and> selects (snd (get_restaurants t s1)) = selects s1 + 1
            \<and> get_restaurants t s1 =
                get_restaurants t (s1\<lparr>entries := (entries s1)(''restaurants'' := None)\<rparr>))"
proof -
  let ?s = "st\<lparr>selects := selects st + 1,
               entries := (entries st)(''restaurants'' \<mapsto> (JSON_stringify rows, t0 + 60))\<rparr>"
  have first: "get_restaurants t0 st = (Inr (Json rows), ?s)"
    by (simp add: get_restaurants_miss [OF cold] load_and_store_ok [OF up table])
  then have s: "s1 = ?s" by (simp add: s1)
  have hit: "get_restaurants t s1 = (Inr (Json rows), s1)" if "t < t0 + 60" for t
    using that up
    by (simp add: s get_restaurants_def client_get_def JSON_roundtrip JSON_stringify_truthy)
  have up1: "redis_up s1" "db_up s1" and table1: "restaurants s1 = Some rows"
    using up table by (simp_all add: s)
  have miss: "fst (get_restaurants t s1) = Inr (Json rows)
            \<and> selects (snd (get_restaurants t s1)) = selects s1 + 1
            \<and> get_restaurants t s1 =
                get_restaurants t (s1\<lparr>entries := (entries s1)(''restaurants'' := None)\<rparr>)"
    if "t0 + 60 \<le> t" for t
  proof -
    have c: "client_get s1 t ''restaurants'' = Inr None"
      using that up by (simp add: s client_get_def)
    have c': "client_get (s1\<lparr>entries := (entries s1)(''restaurants'' := None)\<rparr>) t ''restaurants''
                = Inr None"
      using up by (simp add: s client_get_def)
    have same: "load_and_store t (s1\<lparr>entries := (entries s1)(''restaurants'' := None)\<rparr>)
                  = load_and_store t s1"
      using up table by (simp add: s load_and_store_def db_select_def client_setEx_def Let_def)
    show ?thesis
      by (simp add: get_restaurants_miss [OF c] get_restaurants_miss [OF c'] same
                    load_and_store_ok [OF up1 table1])
  qed
  have a: "get_restaurants t0 st = (Inr (Json rows), s1)"
    using first by (simp add: s)
  have b: "selects s1 = selects st + 1"
    and c: "entries s1 ''restaurants'' = Some (JSON_stringify rows, t0 + 60)"
    by (simp_all add: s)
  from a b c hit miss show ?thesis by blast
qed

theorem cache_entry_lives_60_seconds_witness:
  "get_restaurants 0 scenario_db
     = (Inr (Json [\<lparr>rid = Some ''r1'', rname = Some ''Dosa Corner''\<rparr>]),
        snd (get_restaurants 0 scenario_db))
   \<and> selects (snd (get_restaurants 0 scenario_db)) = 1
   \<and> get_restaurants 30 (snd (get_restaurants 0 scenario_db))
     = (Inr (Json [\<lparr>rid = Some ''r1'', rname = Some ''Dosa Corner''\<rparr>]),
        snd (get_restaurants 0 scenario_db))
   \<and> fst (get_restaurants 61 (snd (get_restaurants 0 scenario_db)))
     = Inr (Json [\<lparr>rid = Some ''r1'', rname = Some ''Dosa Corner''\<rparr>])
   \<and> selects (snd (get_restaurants 61 (snd (get_restaurants 0 scenario_db)))) = 2"
proof -
  have up: "redis_up scenario_db" "db_up scenario_db"
    and table: "restaurants scenario_db = Some [\<lparr>rid = Some ''r1'', rname = Some ''Dosa Corner''\<rparr>]"
    and cold: "client_get scenario_db 0 ''restaurants'' = Inr None"
    and zero: "selects scenario_db = 0"
    by (simp_all add: scenario_db_def client_get_def)
  note served = cache_entry_lives_60_seconds [OF up table cold refl]
  note first = served [THEN conjunct1]
  note count = served [THEN conjunct2, THEN conjunct1]
  have hit: "get_restaurants 30 (snd (get_restaurants 0 scenario_db))
     = (Inr (Json [\<lparr>rid = Some ''r1'', rname = Some ''Dosa Corner''\<rparr>]),
        snd (get_restaurants 0 scenario_db))"
    using served [THEN conjunct2, THEN conjunct2, THEN conjunct2, THEN conjunct1,
                  rule_format, of 30] by simp
  have miss: "fst (get_restaurants 61 (snd (get_restaurants 0 scenario_db)))
       = Inr (Json [\<lparr>rid = Some ''r1'', rname = Some ''Dosa Corner''\<rparr>])
     \<and> selects (snd (get_restaurants 61 (snd (get_restaurants 0 scenario_db))))
       = selects (snd (get_restaurants 0 scenario_db)) + 1"
  proof -
    have "(0::nat) + 60 \<le> 61" by simp
    from served [THEN conjunct2, THEN conjunct2, THEN conjunct2, THEN conjunct2,
                 rule_format, OF this]
    show ?thesis by blast
  qed
  have one: "selects (snd (get_restaurants 0 scenario_db)) = 1"
    using count by (simp add: zero)
  have two: "selects (snd (get_restaurants 61 (snd (get_restaurants 0 scenario_db)))) = 2"
    using miss [THEN conjunct2] by (simp add: one)
  from first one hit miss [THEN conjunct1] two show ?thesis
    by blast
qed

subsection \<open>A failing load\<close>








subsection \<open>Overlapping reads of a cold key\<close>

text \<open>
  Run without another call in between, the two steps of a write are \<open>post_restaurants\<close>;
  and a run of read steps alone is \<open>run\<close>.
\<close>

lemma post_step_twice:
  "\<exists>p. run_events [Write 0, Write 0] (calls, [(uuid, name, Begun)], st)
         = (calls, [(uuid, name, p)], snd (post_restaurants uuid name st))
      \<and> (case fst (post_restaurants uuid name st) of Inl e \<Rightarrow> p = Aborted e | Inr r \<Rightarrow> p = Sent r)"
  by (auto simp: post_restaurants_def split: sum.splits)

lemma run_events_reads:
  "run_events (map (\<lambda>(i, now). Read i now) schedule) (calls, posts, st)
     = (fst (run schedule (calls, st)), posts, snd (run schedule (calls, st)))"
proof (induction schedule arbitrary: calls st)
  case Nil
  show ?case by simp
next
  case (Cons a schedule)
  obtain i t where a: "a = (i, t)" by (cases a)
  obtain c st' where s: "step t st (calls ! i) = (c, st')" by (cases "step t st (calls ! i)")
  show ?case
    unfolding a using Cons.IH s by simp
qed

lemma extends_length: "extends xs ys \<Longrightarrow> length xs \<le> length ys"
proof -
  assume "extends xs ys"
  then have "length (take (length xs) ys) = length xs" by (simp only: extends_def)
  then show ?thesis by simp
qed

lemma extends_refl: "extends xs xs"
  by (simp add: extends_def)

lemma extends_Nil: "extends [] xs"
  by (simp add: extends_def)

lemma extends_append: "extends xs ys \<Longrightarrow> extends xs (ys @ zs)"
  using extends_length [of xs ys] by (simp add: extends_def)

lemma extends_trans: "extends xs ys \<Longrightarrow> extends ys zs \<Longrightarrow> extends xs zs"
proof -
  assume a: "extends xs ys" and b: "extends ys zs"
  from a have l: "length xs \<le> length ys" by (rule extends_length)
  have "take (length xs) zs = take (length xs) (take (length ys) zs)"
    using l by (simp add: min_def)
  also have "\<dots> = take (length xs) ys" using b by (simp only: extends_def)
  also have "\<dots> = xs" using a by (simp only: extends_def)
  finally show ?thesis by (simp only: extends_def)
qed

lemma extends_antisym: "extends xs ys \<Longrightarrow> extends ys xs \<Longrightarrow> xs = ys"
proof -
  assume a: "extends xs ys" and b: "extends ys xs"
  have "length xs = length ys"
    using extends_length [OF a] extends_length [OF b] by simp
  with a show ?thesis by (simp add: extends_def)
qed

lemma grown_refl: "grown st st"
  by (simp add: grown_def extends_refl split: option.splits)

lemma grown_trans: "grown a b \<Longrightarrow> grown b c \<Longrightarrow> grown a c"
  by (auto simp: grown_def split: option.splits intro: extends_trans)

lemma grown_table_rows:
  "grown st0 st \<Longrightarrow> restaurants st = Some cur \<Longrightarrow> extends (table_rows st0) cur"
  by (auto simp: grown_def table_rows_def extends_Nil split: option.splits)

lemma between_grown: "between st0 st rows \<Longrightarrow> grown st st' \<Longrightarrow> between st0 st' rows"
  by (auto simp: between_def grown_def split: option.splits intro: extends_trans)

lemma between_same:
  "between st0 st rows \<Longrightarrow> table_rows st = table_rows st0 \<Longrightarrow> rows = table_rows st0"
  by (auto simp: between_def table_rows_def split: option.splits intro: extends_antisym)

lemma loaded_ok_mono:
  "loaded_ok st0 st c \<Longrightarrow> grown st st' \<Longrightarrow> selects st \<le> selects st' \<Longrightarrow> loaded_ok st0 st' c"
  by (cases c) (auto simp: loaded_ok_def intro: between_grown)

lemma list_all_loaded_ok_mono:
  "list_all (loaded_ok st0 st) cs \<Longrightarrow> grown st st' \<Longrightarrow> selects st \<le> selects st'
     \<Longrightarrow> list_all (loaded_ok st0 st') cs"
  by (induction cs) (auto intro: loaded_ok_mono)

lemma fresh_mono:
  "fresh st0 st \<Longrightarrow> grown st st' \<Longrightarrow> selects st \<le> selects st'
     \<Longrightarrow> entries st' ''restaurants'' = entries st ''restaurants'' \<Longrightarrow> fresh st0 st'"
  by (auto simp: fresh_def intro: between_grown)

lemma inv_grown:
  assumes I: "inv st0 n (calls, st)"
    and g: "grown st st'" and sel: "selects st' = selects st"
    and e: "entries st' ''restaurants'' = entries st ''restaurants''"
  shows "inv st0 n (calls, st')"
proof -
  from I have len: "length calls = n"
    and g0: "grown st0 st"
    and lo: "selects st0 \<le> selects st"
    and hi: "selects st + length (filter pending calls) \<le> selects st0 + n"
    and ok: "list_all (loaded_ok st0 st) calls"
    and ent: "entries st ''restaurants'' = entries st0 ''restaurants'' \<or> fresh st0 st"
    by (simp_all add: inv_def)
  have ok': "list_all (loaded_ok st0 st') calls"
    using list_all_loaded_ok_mono [OF ok g] sel by simp
  have ent': "entries st' ''restaurants'' = entries st0 ''restaurants'' \<or> fresh st0 st'"
    using ent fresh_mono [OF _ g _ e] sel e by auto
  show ?thesis
    using len grown_trans [OF g0 g] lo hi ok' ent' sel by (simp add: inv_def)
qed

lemma post_step_grown:
  assumes "post_step uuid name st p = (p', st')"
  shows "grown st st' \<and> selects st' = selects st \<and> entries st' = entries st"
proof (cases p)
  case Begun
  with assms show ?thesis
    by (auto simp: db_create_table_def grown_def extends_refl extends_Nil
             split: if_splits option.splits)
next
  case Created
  with assms show ?thesis
    by (auto simp: db_insert_def grown_def extends_refl extends_append
             split: if_splits option.splits)
next
  case (Sent r)
  with assms show ?thesis by (auto simp: grown_refl)
next
  case (Aborted e)
  with assms show ?thesis by (auto simp: grown_refl)
qed

lemma step_inv:
  assumes I: "inv st0 n (calls, st)"
    and cold: "cold st0 t0" and t: "t0 \<le> t" and i: "i < length calls"
    and s: "step t st (calls ! i) = (c, st')"
  shows "inv st0 n (calls[i := c], st')"
proof -
  from I have len: "length calls = n"
    and g0: "grown st0 st"
    and lo: "selects st0 \<le> selects st"
    and hi: "selects st + length (filter pending calls) \<le> selects st0 + n"
    and ok: "list_all (loaded_ok st0 st) calls"
    and ent: "entries st ''restaurants'' = entries st0 ''restaurants'' \<or> fresh st0 st"
    by (simp_all add: inv_def)
  note cnt = filter_update_count [OF i, of pending c]
  from ok i have oki: "loaded_ok st0 st (calls ! i)"
    by (simp add: list_all_length)
  show ?thesis
  proof (cases "calls ! i")
    case Start
    have st': "st' = st" using s Start
      by (auto split: sum.splits option.splits if_splits)
    have c_ok: "loaded_ok st0 st c"
    proof (cases c)
      case (Responded r)
      with s Start obtain v expiry rows where
        e: "entries st ''restaurants'' = Some (v, expiry)" and live: "t < expiry"
        and p: "JSON_parse v = Some rows" and r: "r = Json rows"
        by (auto simp: client_get_def split: sum.splits option.splits if_splits)
      have "\<not> entries st ''restaurants'' = entries st0 ''restaurants''"
      proof
        assume "entries st ''restaurants'' = entries st0 ''restaurants''"
        with e have "entries st0 ''restaurants'' = Some (v, expiry)" by simp
        with cold have "expiry \<le> t0" by (simp add: cold_def)
        with t live show False by simp
      qed
      with ent have f: "fresh st0 st" by simp
      with e p have "between st0 st rows"
        by (auto simp: fresh_def JSON_roundtrip)
      with f r show ?thesis by (simp add: loaded_ok_def Responded fresh_def)
    next
      case (Loaded x)
      with s Start show ?thesis by (auto split: sum.splits option.splits if_splits)
    qed (simp_all add: loaded_ok_def)
    have "length (filter pending (calls[i := c])) \<le> length (filter pending calls)"
      using cnt Start by (simp split: if_splits)
    with hi have hi': "selects st + length (filter pending (calls[i := c])) \<le> selects st0 + n"
      by simp
    show ?thesis
      using len g0 lo hi' ent list_all_update [OF ok c_ok]
      by (simp add: inv_def st')
  next
    case Missed
    have sel: "selects st' = selects st + 1"
      and rest: "restaurants st' = restaurants st" "entries st' = entries st"
      using s Missed by (auto simp: db_select_def Let_def split: if_splits option.splits)
    have g: "grown st st'"
      using rest by (simp add: grown_def extends_refl split: option.splits)
    have np: "\<not> pending c"
      using s Missed by (auto simp: db_select_def Let_def split: if_splits option.splits)
    have c_ok: "loaded_ok st0 st' c"
    proof (cases c)
      case (Loaded rows)
      with s Missed have r: "restaurants st = Some rows"
        by (auto simp: db_select_def Let_def split: if_splits option.splits)
      from grown_table_rows [OF g0 r] r rest have "between st0 st' rows"
        by (simp add: between_def extends_refl)
      with sel lo show ?thesis by (simp add: loaded_ok_def Loaded)
    next
      case (Responded r)
      with s Missed show ?thesis
        by (auto simp: db_select_def Let_def split: if_splits option.splits)
    qed (simp_all add: loaded_ok_def)
    have "length (filter pending (calls[i := c])) + 1 = length (filter pending calls)"
      using cnt Missed np by simp
    with hi sel have hi': "selects st' + length (filter pending (calls[i := c])) \<le> selects st0 + n"
      by simp
    have ok': "list_all (loaded_ok st0 st') calls"
      using list_all_loaded_ok_mono [OF ok g] sel by simp
    have ent': "entries st' ''restaurants'' = entries st0 ''restaurants'' \<or> fresh st0 st'"
      using ent fresh_mono [OF _ g, of st0] sel rest by auto
    show ?thesis
      using len grown_trans [OF g0 g] lo hi' ent' list_all_update [OF ok' c_ok] sel
      by (simp add: inv_def)
  next
    case (Loaded rows)
    from oki Loaded have r: "between st0 st rows" and pos: "selects st0 < selects st"
      by (simp_all add: loaded_ok_def)
    have np: "\<not> pending c" and sel: "selects st' = selects st"
      and rest: "restaurants st' = restaurants st"
      using s Loaded by (auto simp: client_setEx_def split: if_splits)
    have g: "grown st st'"
      using rest by (simp add: grown_def extends_refl split: option.splits)
    have r': "between st0 st' rows"
      using r rest by (simp add: between_def)
    have pos': "selects st0 < selects st'"
      using pos sel by simp
    have "c = Responded (Json rows) \<or> c = Threw RedisError"
      using s Loaded by (auto simp: client_setEx_def split: if_splits)
    then have c_ok: "loaded_ok st0 st' c"
      using r' pos' by (auto simp: loaded_ok_def)
    have ent': "entries st' ''restaurants'' = entries st0 ''restaurants'' \<or> fresh st0 st'"
    proof (cases "redis_up st")
      case True
      with s Loaded have "entries st' ''restaurants'' = Some (JSON_stringify rows, t + 60)"
        by (auto simp: client_setEx_def)
      with r' pos sel show ?thesis by (auto simp: fresh_def)
    next
      case False
      with s Loaded have "st' = st" by (auto simp: client_setEx_def)
      with ent show ?thesis by simp
    qed
    have "length (filter pending (calls[i := c])) = length (filter pending calls)"
      using cnt Loaded np by simp
    with hi sel have hi': "selects st' + length (filter pending (calls[i := c])) \<le> selects st0 + n"
      by simp
    have ok': "list_all (loaded_ok st0 st') calls"
      using list_all_loaded_ok_mono [OF ok g] sel by simp
    show ?thesis
      using len grown_trans [OF g0 g] lo hi' ent' list_all_update [OF ok' c_ok] sel
      by (simp add: inv_def)
  next
    case (Responded r)
    with s have "c = calls ! i" "st' = st" by auto
    with I show ?thesis by (simp add: list_update_id)
  next
    case (Threw e)
    with s have "c = calls ! i" "st' = st" by auto
    with I show ?thesis by (simp add: list_update_id)
  qed
qed

lemma run_events_inv:
  assumes "cold st0 t0"
  shows "inv st0 n (calls, st) \<Longrightarrow> list_all (not_before t0) schedule
     \<Longrightarrow> run_events schedule (calls, posts, st) = (calls', posts', st')
     \<Longrightarrow> inv st0 n (calls', st')"
proof (induction schedule arbitrary: calls posts st)
  case Nil
  then show ?case by simp
next
  case (Cons a schedule)
  from Cons.prems(2) have later: "list_all (not_before t0) schedule" by simp
  show ?case
  proof (cases a)
    case (Read i t)
    with Cons.prems(2) have t: "t0 \<le> t" by simp
    show ?thesis
    proof (cases "i < length calls")
      case True
      obtain c st1 where s: "step t st (calls ! i) = (c, st1)"
        by (cases "step t st (calls ! i)")
      from step_inv [OF Cons.prems(1) assms t True s]
      have I: "inv st0 n (calls[i := c], st1)" .
      from Cons.prems(3) have "run_events schedule (calls[i := c], posts, st1) = (calls', posts', st')"
        by (simp add: Read True s)
      from Cons.IH [OF I later this] show ?thesis .
    next
      case False
      with Cons.prems(3) have "run_events schedule (calls, posts, st) = (calls', posts', st')"
        by (simp add: Read)
      from Cons.IH [OF Cons.prems(1) later this] show ?thesis .
    qed
  next
    case (Write j)
    show ?thesis
    proof (cases "j < length posts")
      case True
      obtain uuid name p where pj: "posts ! j = (uuid, name, p)" by (cases "posts ! j")
      obtain p' st1 where s: "post_step uuid name st p = (p', st1)"
        by (cases "post_step uuid name st p")
      from post_step_grown [OF s] inv_grown [OF Cons.prems(1), of st1]
      have I: "inv st0 n (calls, st1)" by simp
      from Cons.prems(3)
      have "run_events schedule (calls, posts[j := (uuid, name, p')], st1) = (calls', posts', st')"
        by (simp add: Write True pj s)
      from Cons.IH [OF I later this] show ?thesis .
    next
      case False
      with Cons.prems(3) have "run_events schedule (calls, posts, st) = (calls', posts', st')"
        by (simp add: Write)
      from Cons.IH [OF Cons.prems(1) later this] show ?thesis .
    qed
  next
    case (Outage r d)
    have "grown st (st\<lparr>redis_up := r, db_up := d\<rparr>)"
      by (simp add: grown_def extends_refl split: option.splits)
    with inv_grown [OF Cons.prems(1), of "st\<lparr>redis_up := r, db_up := d\<rparr>"]
    have I: "inv st0 n (calls, st\<lparr>redis_up := r, db_up := d\<rparr>)" by simp
    from Cons.prems(3)
    have "run_events schedule (calls, posts, st\<lparr>redis_up := r, db_up := d\<rparr>) = (calls', posts', st')"
      by (simp add: Outage)
    from Cons.IH [OF I later this] show ?thesis .
  qed
qed

lemma inv_start: "inv st0 n (replicate n Start, st0)"
  by (simp add: inv_def list_all_length loaded_ok_def grown_refl)

text \<open>
  C3, as the code has it. The handler does not share a load between overlapping calls:
  every call that reads the key before an entry is stored runs its own query. For \<open>n\<close>
  overlapping reads of a cold key, under every schedule of their steps, of the steps of
  \<open>POST /restaurants\<close> calls and of outages, at most \<open>n\<close> loads happen. When a call has
  responded at least one load has happened, and the rows it sent are those the table held
  at the start followed by rows appended during the run. When the table holds at the end
  what it held at the start, every response carries exactly those rows.
\<close>

theorem concurrent_cold_reads:
  assumes "cold st0 t0"
    and "list_all (not_before t0) schedule"
    and "run_events schedule (replicate n Start, posts0, st0) = (calls, posts, st)"
  shows "selects st \<le> selects st0 + n
       \<and> list_all (\<lambda>c. \<forall>r. c = Responded r \<longrightarrow>
                     selects st0 < selects st
                   \<and> (\<exists>rows. r = Json rows \<and> between st0 st rows)) calls
       \<and> (table_rows st = table_rows st0 \<longrightarrow>
            list_all (\<lambda>c. \<forall>r. c = Responded r \<longrightarrow> r = Json (table_rows st0)) calls)"
proof -
  from run_events_inv [OF assms(1) inv_start assms(2) assms(3)]
  have I: "inv st0 n (calls, st)" .
  then have "selects st + length (filter pending calls) \<le> selects st0 + n"
    and ok: "list_all (loaded_ok st0 st) calls"
    by (simp_all add: inv_def)
  then have bound: "selects st \<le> selects st0 + n" by simp
  have each: "\<forall>c \<in> set calls. \<forall>r. c = Responded r \<longrightarrow>
          selects st0 < selects st \<and> (\<exists>rows. r = Json rows \<and> between st0 st rows)"
  proof (intro ballI allI impI)
    fix c r
    assume "c \<in> set calls" and "c = Responded r"
    with ok have "loaded_ok st0 st (Responded r)"
      by (simp add: list_all_iff)
    then show "selects st0 < selects st \<and> (\<exists>rows. r = Json rows \<and> between st0 st rows)"
      by (auto simp: loaded_ok_def)
  qed
  have same: "table_rows st = table_rows st0 \<longrightarrow>
            (\<forall>c \<in> set calls. \<forall>r. c = Responded r \<longrightarrow> r = Json (table_rows st0))"
    using each by (auto dest: between_same)
  from bound each same show ?thesis by (simp add: list_all_iff)
qed

text \<open>
  Two reads of a cold key that both look into the cache before either stores: each
  issues the query, so the rows are loaded twice, not once.
\<close>

theorem two_overlapping_reads_load_twice:
  "fst (run [(0, 0), (1, 0), (0, 1), (1, 1), (0, 2), (1, 2)] ([Start, Start], scenario_db))
     = [Responded (Json [\<lparr>rid = Some ''r1'', rname = Some ''Dosa Corner''\<rparr>]),
        Responded (Json [\<lparr>rid = Some ''r1'', rname = Some ''Dosa Corner''\<rparr>])]
   \<and> selects (snd (run [(0, 0), (1, 0), (0, 1), (1, 1), (0, 2), (1, 2)] ([Start, Start], scenario_db)))
     = selects scenario_db + 2"
  by (simp add: scenario_db_def client_get_def client_setEx_def db_select_def Let_def)

text \<open>
  The same two reads with a \<open>POST /restaurants\<close> between their queries: the first is
  answered with one restaurant, the second with two. Without the write both are answered
  with the one restaurant of the table.
\<close>

theorem concurrent_cold_reads_witness:
  "cold scenario_db 0
   \<and> list_all (not_before 0)
        [Read 0 0, Read 1 0, Read 0 1, Write 0, Write 0, Read 1 1, Read 0 2, Read 1 2]
   \<and> fst (run_events [Read 0 0, Read 1 0, Read 0 1, Write 0, Write 0, Read 1 1, Read 0 2, Read 1 2]
             (replicate 2 Start, [(''r2'', Some ''Idli House'', Begun)], scenario_db))
       = [Responded (Json [\<lparr>rid = Some ''r1'', rname = Some ''Dosa Corner''\<rparr>]),
          Responded (Json [\<lparr>rid = Some ''r1'', rname = Some ''Dosa Corner''\<rparr>, second_row])]
   \<and> selects (snd (snd (run_events
          [Read 0 0, Read 1 0, Read 0 1, Write 0, Write 0, Read 1 1, Read 0 2, Read 1 2]
          (replicate 2 Start, [(''r2'', Some ''Idli House'', Begun)], scenario_db))))
       \<le> selects scenario_db + 2
   \<and> list_all (\<lambda>c. \<forall>r. c = Responded r \<longrightarrow>
         selects scenario_db
           < selects (snd (snd (run_events
               [Read 0 0, Read 1 0, Read 0 1, Write 0, Write 0, Read 1 1, Read 0 2, Read 1 2]
               (replicate 2 Start, [(''r2'', Some ''Idli House'', Begun)], scenario_db))))
       \<and> (\<exists>rows. r = Json rows
             \<and> between scenario_db
                 (snd (snd (run_events
                    [Read 0 0, Read 1 0, Read 0 1, Write 0, Write 0, Read 1 1, Read 0 2, Read 1 2]
                    (replicate 2 Start, [(''r2'', Some ''Idli House'', Begun)], scenario_db))))
                 rows))
       (fst (run_events [Read 0 0, Read 1 0, Read 0 1, Write 0, Write 0, Read 1 1, Read 0 2, Read 1 2]
               (replicate 2 Start, [(''r2'', Some ''Idli House'', Begun)], scenario_db)))
   \<and> table_rows (snd (snd (run_events [Read 0 0, Read 1 0, Read 0 1, Read 1 1, Read 0 2, Read 1 2]
                              (replicate 2 Start, [], scenario_db))))
       = table_rows scenario_db
   \<and> list_all (\<lambda>c. \<forall>r. c = Responded r \<longrightarrow> r = Json (table_rows scenario_db))
       (fst (run_events [Read 0 0, Read 1 0, Read 0 1, Read 1 1, Read 0 2, Read 1 2]
               (replicate 2 Start, [], scenario_db)))"
proof -
  let ?mixed = "[Read 0 0, Read 1 0, Read 0 1, Write 0, Write 0, Read 1 1, Read 0 2, Read 1 2]"
  let ?reads = "[Read 0 0, Read 1 0, Read 0 1, Read 1 1, Read 0 2, Read 1 2]"
  let ?a = "run_events ?mixed (replicate 2 Start, [(''r2'', Some ''Idli House'', Begun)], scenario_db)"
  let ?b = "run_events ?reads (replicate 2 Start, [], scenario_db)"
  have c: "cold scenario_db 0"
    by (simp add: cold_def scenario_db_def)
  have ta: "list_all (not_before 0) ?mixed" by simp
  have tb: "list_all (not_before 0) ?reads" by simp
  have two: "replicate 2 Start = [Start, Start]"
    by (simp add: numeral_2_eq_2)
  have ra: "fst ?a = [Responded (Json [\<lparr>rid = Some ''r1'', rname = Some ''Dosa Corner''\<rparr>]),
          Responded (Json [\<lparr>rid = Some ''r1'', rname = Some ''Dosa Corner''\<rparr>, second_row])]"
    by (simp add: two scenario_db_def client_get_def client_setEx_def db_select_def
                  db_create_table_def db_insert_def Let_def second_row_def)
  have rb: "table_rows (snd (snd ?b)) = table_rows scenario_db"
    by (simp add: two table_rows_def scenario_db_def client_get_def client_setEx_def db_select_def Let_def)
  have ea: "?a = (fst ?a, fst (snd ?a), snd (snd ?a))" by simp
  have eb: "?b = (fst ?b, fst (snd ?b), snd (snd ?b))" by simp
  note A = concurrent_cold_reads [OF c ta ea]
  note B = concurrent_cold_reads [OF c tb eb]
  from c ta ra rb A [THEN conjunct1] A [THEN conjunct2, THEN conjunct1]
       B [THEN conjunct2, THEN conjunct2, THEN mp, OF rb]
  show ?thesis by blast
qed

section \<open>Properties of the gateway\<close>

lemma second_character:
  assumes "mount_matches (a # b # m) p" and "mount_matches (a' # b' # m') p"
  shows "b = b'"
proof (cases "map lower p")
  case Nil
  with assms show ?thesis by (simp add: mount_matches_def)
next
  case (Cons x xs)
  with assms show ?thesis
    by (cases xs) (auto simp: mount_matches_def split: if_splits)
qed

lemma route_gateway_mounts:
  "route gateway_mounts p = map_option snd (longest_prefix_route gateway_mounts p)"
  by (auto simp: gateway_mounts_def dest: second_character)

lemma route_find:
  "route mounts p = map_option snd (find (\<lambda>(mount, service). mount_matches mount p) mounts)"
  by (induction mounts) auto

lemma route_None_iff:
  "route mounts p = None \<longleftrightarrow> (\<forall>(mount, service) \<in> set mounts. \<not> mount_matches mount p)"
  by (induction mounts) (auto split: if_splits)

lemma gateway_log_append:
  "gateway_log (earlier @ later) = gateway_log earlier @ gateway_log later"
  by (induction earlier) simp_all

lemma length_gateway_log: "length (gateway_log calls) = length calls"
  by (induction calls) simp_all

lemma handed_on_body: "handed_on r \<longleftrightarrow> (\<forall>code. body r \<noteq> Rejected code)"
  by (auto simp: handed_on_def express_json_def split: json_body.splits)

lemma gateway_handed_on:
  assumes "handed_on r"
  shows "gateway u r =
           (case route gateway_mounts (pathname r) of
              None \<Rightarrow> \<lparr>sent_to = None, answer = NotFound\<rparr>
            | Some options \<Rightarrow>
                \<lparr>sent_to = Some (target options),
                 answer = relay (u (target options) r)\<rparr>)"
  using assms
  by (auto simp: gateway_def handed_on_def express_json_def split: json_body.splits)

lemma gateway_rejected:
  "body r = Rejected code \<Longrightarrow> gateway u r = \<lparr>sent_to = None, answer = Refused code\<rparr>"
  by (simp add: gateway_def express_json_def)

lemma forwarded_callers:
  assumes "list_all (\<lambda>a. handed_on (req a) \<and> route gateway_mounts (pathname (req a)) \<noteq> None)
             callers"
  shows "list_all2
           (\<lambda>a s. case route gateway_mounts (pathname (req a)) of
                     None \<Rightarrow> False
                   | Some options \<Rightarrow>
                       s = \<lparr>sent_to = Some (target options),
                            answer = relay (upstream a (target options) (req a))\<rparr>)
           callers (gateway_log callers)"
  using assms
proof (induction callers)
  case Nil
  show ?case by simp
next
  case (Cons a callers)
  from Cons.prems have h: "handed_on (req a)"
    and m: "route gateway_mounts (pathname (req a)) \<noteq> None"
    and later: "list_all (\<lambda>a. handed_on (req a) \<and> route gateway_mounts (pathname (req a)) \<noteq> None)
                  callers"
    by simp_all
  from m obtain options where o: "route gateway_mounts (pathname (req a)) = Some options"
    by blast
  from gateway_handed_on [OF h, of "upstream a"] o Cons.IH [OF later]
  show ?case by simp
qed

subsection \<open>Routing\<close>

text \<open>
  C6, as the code has it. For any table of mounts, a pathname resolves to the first
  registered mount that matches it, and to nothing exactly when no mount matches. On the
  four mounts of the gateway no pathname matches two of them, so there the first match is
  the longest matching prefix. A request that the body parser hands on is sent to the
  target of the mount it resolves to; when it resolves to none it is answered with 404 and
  sent to no service. A request whose body the parser rejects is answered with the
  parser's status and sent to no service, whether a mount matches or not.
\<close>

theorem route_first_match_or_not_found:
  "route mounts p = map_option snd (find (\<lambda>(mount, service). mount_matches mount p) mounts)
   \<and> (route mounts p = None \<longleftrightarrow> (\<forall>(mount, service) \<in> set mounts. \<not> mount_matches mount p))
   \<and> route gateway_mounts p = map_option snd (longest_prefix_route gateway_mounts p)
   \<and> gateway u r =
        (case body r of
           Rejected code \<Rightarrow> \<lparr>sent_to = None, answer = Refused code\<rparr>
         | _ \<Rightarrow>
             (case route gateway_mounts (pathname r) of
                None \<Rightarrow> \<lparr>sent_to = None, answer = NotFound\<rparr>
              | Some options \<Rightarrow>
                  \<lparr>sent_to = Some (target options),
                   answer = relay (u (target options) r)\<rparr>))"
proof -
  note a = route_find [of mounts p]
  note b = route_None_iff [of mounts p]
  note c = route_gateway_mounts [of p]
  have d: "gateway u r =
        (case body r of
           Rejected code \<Rightarrow> \<lparr>sent_to = None, answer = Refused code\<rparr>
         | _ \<Rightarrow>
             (case route gateway_mounts (pathname r) of
                None \<Rightarrow> \<lparr>sent_to = None, answer = NotFound\<rparr>
              | Some options \<Rightarrow>
                  \<lparr>sent_to = Some (target options),
                   answer = relay (u (target options) r)\<rparr>))"
    by (simp add: gateway_def express_json_def split: json_body.splits)
  from a b c d show ?thesis by blast
qed

text \<open>
  With \<open>/orders\<close> registered before \<open>/orders/archive\<close>, the pathname
  \<open>/orders/archive/7\<close> resolves to the first, not to the longest matching prefix. And a
  request for \<open>/menu\<close>, which no mount of the gateway matches, with a JSON body that is
  not well-formed is answered with 400, not with 404.
\<close>

theorem first_match_is_not_longest_prefix:
  "route [(''/orders'', ''orders''), (''/orders/archive'', ''archive'')] ''/orders/archive/7''
     = Some ''orders''
   \<and> map_option snd
       (longest_prefix_route [(''/orders'', ''orders''), (''/orders/archive'', ''archive'')]
          ''/orders/archive/7'')
     = Some ''archive''
   \<and> route gateway_mounts ''/menu'' = None
   \<and> gateway unreachable
       \<lparr>http_method = ''POST'', pathname = ''/menu'', headers = (), body = Rejected 400\<rparr>
     = \<lparr>sent_to = None, answer = Refused 400\<rparr>"
  by (simp add: mount_matches_def lower_def gateway_mounts_def gateway_def express_json_def)

text \<open>
  \<open>/orders/123\<close> resolves to nothing once \<open>/orders\<close> is not registered; on the gateway
  it is sent to the order service, \<open>/menu\<close> gets 404, and an oversized body gets 413.
\<close>

theorem route_first_match_or_not_found_witness:
  "route (filter (\<lambda>m. fst m \<noteq> ''/orders'') gateway_mounts) ''/orders/123'' = None
   \<and> map_option target (route gateway_mounts ''/orders/123'') = Some ''http://order-service:4003''
   \<and> map_option fst (longest_prefix_route gateway_mounts ''/orders/123'') = Some ''/orders''
   \<and> handed_on (\<lparr>http_method = ''GET'', pathname = ''/orders/123'', headers = (), body = Unread\<rparr>
                 :: (unit, string) request)
   \<and> gateway answering
        \<lparr>http_method = ''GET'', pathname = ''/orders/123'', headers = (), body = Unread\<rparr>
       = \<lparr>sent_to = Some ''http://order-service:4003'', answer = Relayed ()\<rparr>
   \<and> handed_on (\<lparr>http_method = ''GET'', pathname = ''/menu'', headers = (), body = Unread\<rparr>
                 :: (unit, string) request)
   \<and> gateway answering
        \<lparr>http_method = ''GET'', pathname = ''/menu'', headers = (), body = Unread\<rparr>
       = \<lparr>sent_to = None, answer = NotFound\<rparr>
   \<and> gateway answering
        \<lparr>http_method = ''POST'', pathname = ''/orders/123'', headers = (), body = Rejected 413\<rparr>
       = \<lparr>sent_to = None, answer = Refused 413\<rparr>"
proof -
  let ?order = "\<lparr>http_method = ''GET'', pathname = ''/orders/123'', headers = (), body = Unread\<rparr>
                  :: (unit, string) request"
  let ?menu = "\<lparr>http_method = ''GET'', pathname = ''/menu'', headers = (), body = Unread\<rparr>
                 :: (unit, string) request"
  let ?big = "\<lparr>http_method = ''POST'', pathname = ''/orders/123'', headers = (), body = Rejected 413\<rparr>
                :: (unit, string) request"
  let ?without = "filter (\<lambda>m. fst m \<noteq> ''/orders'') gateway_mounts"
  have nomatch: "\<forall>(mount, service) \<in> set ?without. \<not> mount_matches mount ''/orders/123''"
    by (simp add: gateway_mounts_def mount_matches_def lower_def)
  have orders: "route gateway_mounts ''/orders/123''
                  = Some \<lparr>target = ''http://order-service:4003'', changeOrigin = True,
                           timeout = None, proxyTimeout = None\<rparr>"
    by (simp add: gateway_mounts_def mount_matches_def lower_def)
  have menu: "route gateway_mounts ''/menu'' = None"
    by (simp add: gateway_mounts_def mount_matches_def lower_def)
  have l: "map_option fst (longest_prefix_route gateway_mounts ''/orders/123'') = Some ''/orders''"
    by (simp add: gateway_mounts_def mount_matches_def lower_def)
  have h1: "handed_on ?order" and h2: "handed_on ?menu"
    by (simp_all add: handed_on_def express_json_def)
  have rel: "relay (answering ''http://order-service:4003'' ?order) = Relayed ()"
    by (simp add: relay_def answering_def)
  note A = route_first_match_or_not_found [of ?without "''/orders/123''" answering ?order]
  note B = route_first_match_or_not_found [of "[]" "''/menu''" answering ?menu]
  note C = route_first_match_or_not_found [of "[]" "''/menu''" answering ?big]
  have a: "route ?without ''/orders/123'' = None"
    using A [THEN conjunct2, THEN conjunct1] nomatch by blast
  have b: "gateway answering ?order
             = \<lparr>sent_to = Some ''http://order-service:4003'', answer = Relayed ()\<rparr>"
    using A [THEN conjunct2, THEN conjunct2, THEN conjunct2]
    by (simp add: orders rel)
  have c: "gateway answering ?menu = \<lparr>sent_to = None, answer = NotFound\<rparr>"
    using B [THEN conjunct2, THEN conjunct2, THEN conjunct2]
    by (simp add: menu)
  have d: "gateway answering ?big = \<lparr>sent_to = None, answer = Refused 413\<rparr>"
    using C [THEN conjunct2, THEN conjunct2, THEN conjunct2] by simp
  from a b c d orders l h1 h2 show ?thesis by simp
qed

subsection \<open>No circuit breaker\<close>

text \<open>
  C4, as the code has it. The gateway counts no failures and has no open state. Whatever
  happened to the calls before it, five or more consecutive failures included, a request
  under a registered prefix that the body parser hands on is sent to the service of that
  prefix, and what the caller gets is the outcome of that one attempt. A request whose
  body the parser rejects is answered with the parser's status and sent nowhere, after any
  history alike.
\<close>

theorem gateway_forwards_after_any_failures:
  assumes "route gateway_mounts (pathname r) = Some options"
  shows "gateway_log (earlier @ [\<lparr>at = t, req = r, upstream = u\<rparr>]) ! length earlier
           = (case body r of
                Rejected code \<Rightarrow> \<lparr>sent_to = None, answer = Refused code\<rparr>
              | _ \<Rightarrow> \<lparr>sent_to = Some (target options),
                       answer = relay (u (target options) r)\<rparr>)"
  using assms
  by (simp add: gateway_log_append nth_append length_gateway_log gateway_def express_json_def
           split: json_body.splits)

text \<open>
  Five calls to \<open>/orders\<close> fail one after the other; the sixth is sent to the order
  service all the same.
\<close>

theorem sixth_call_after_five_failures_is_forwarded:
  "map answer (gateway_log (map failing_order_call [0, 1, 2, 3, 4])) = [ProxyError, ProxyError, ProxyError, ProxyError, ProxyError]
   \<and> gateway_log (map failing_order_call [0, 1, 2, 3, 4, 5]) ! 5
       = \<lparr>sent_to = Some ''http://order-service:4003'', answer = ProxyError\<rparr>"
  by (simp add: failing_order_call_def get_orders_def gateway_def express_json_def relay_def
                gateway_mounts_def mount_matches_def lower_def unreachable_def)

text \<open>
  After the five failures: a sixth request for the orders is sent on and fails; a request
  whose JSON body the parser has read is sent on and gets no answer from a service that
  waits for the body; a request whose JSON body is not well-formed is answered with 400
  and not sent.
\<close>

theorem gateway_forwards_after_any_failures_witness:
  "map_option target (route gateway_mounts (pathname get_orders)) = Some ''http://order-service:4003''
   \<and> list_all (\<lambda>s. answer s = ProxyError) (gateway_log (map failing_order_call [0, 1, 2, 3, 4]))
   \<and> gateway_log (map failing_order_call [0, 1, 2, 3, 4] @ [failing_order_call 5]) ! 5
       = \<lparr>sent_to = Some ''http://order-service:4003'', answer = ProxyError\<rparr>
   \<and> gateway_log (map failing_order_call [0, 1, 2, 3, 4]
         @ [\<lparr>at = 5,
             req = \<lparr>http_method = ''POST'', pathname = ''/orders'', headers = (),
                     body = Parsed ''{}''\<rparr>,
             upstream = waits_for_body\<rparr>]) ! 5
       = \<lparr>sent_to = Some ''http://order-service:4003'', answer = NoAnswer\<rparr>
   \<and> gateway_log (map failing_order_call [0, 1, 2, 3, 4]
         @ [\<lparr>at = 5,
             req = \<lparr>http_method = ''POST'', pathname = ''/orders'', headers = (),
                     body = Rejected 400\<rparr>,
             upstream = answering\<rparr>]) ! 5
       = \<lparr>sent_to = None, answer = Refused 400\<rparr>"
proof -
  let ?options = "\<lparr>target = ''http://order-service:4003'', changeOrigin = True,
                   timeout = None, proxyTimeout = None\<rparr>"
  let ?parsed = "\<lparr>http_method = ''POST'', pathname = ''/orders'', headers = (),
                   body = Parsed ''{}''\<rparr> :: (unit, string) request"
  let ?bad = "\<lparr>http_method = ''POST'', pathname = ''/orders'', headers = (),
                body = Rejected 400\<rparr> :: (unit, string) request"
  have r: "route gateway_mounts (pathname get_orders) = Some ?options"
    by (simp add: get_orders_def gateway_mounts_def mount_matches_def lower_def)
  have r1: "route gateway_mounts (pathname ?parsed) = Some ?options"
    by (simp add: gateway_mounts_def mount_matches_def lower_def)
  have r2: "route gateway_mounts (pathname ?bad) = Some ?options"
    by (simp add: gateway_mounts_def mount_matches_def lower_def)
  have f: "list_all (\<lambda>s. answer s = ProxyError) (gateway_log (map failing_order_call [0, 1, 2, 3, 4]))"
    by (simp add: failing_order_call_def get_orders_def gateway_def express_json_def relay_def
                  gateway_mounts_def mount_matches_def lower_def unreachable_def)
  have l: "length (map failing_order_call [0, 1, 2, 3, 4]) = 5" by simp
  have a: "gateway_log (map failing_order_call [0, 1, 2, 3, 4] @ [failing_order_call 5]) ! 5
       = \<lparr>sent_to = Some ''http://order-service:4003'', answer = ProxyError\<rparr>"
    using gateway_forwards_after_any_failures
            [OF r, of "map failing_order_call [0, 1, 2, 3, 4]" 5 unreachable]
    unfolding l by (simp add: failing_order_call_def unreachable_def get_orders_def relay_def)
  have b: "gateway_log (map failing_order_call [0, 1, 2, 3, 4]
             @ [\<lparr>at = 5, req = ?parsed, upstream = waits_for_body\<rparr>]) ! 5
       = \<lparr>sent_to = Some ''http://order-service:4003'', answer = NoAnswer\<rparr>"
    using gateway_forwards_after_any_failures
            [OF r1, of "map failing_order_call [0, 1, 2, 3, 4]" 5 waits_for_body]
    unfolding l by (simp add: waits_for_body_def relay_def)
  have c: "gateway_log (map failing_order_call [0, 1, 2, 3, 4]
             @ [\<lparr>at = 5, req = ?bad, upstream = answering\<rparr>]) ! 5
       = \<lparr>sent_to = None, answer = Refused 400\<rparr>"
    using gateway_forwards_after_any_failures
            [OF r2, of "map failing_order_call [0, 1, 2, 3, 4]" 5 answering]
    unfolding l by simp
  from r f a b c show ?thesis by simp
qed

text \<open>
  C5, as the code has it. There is no cool-down and no trial request. The callers that
  arrive after any history, at any time, together or not, each with a request under a
  registered prefix that the body parser hands on, are every one of them sent to the
  service of their prefix, and each gets the outcome of its own attempt.
\<close>

theorem every_caller_is_forwarded:
  assumes "list_all (\<lambda>a. handed_on (req a) \<and> route gateway_mounts (pathname (req a)) \<noteq> None)
             callers"
  shows "list_all2
           (\<lambda>a s. case route gateway_mounts (pathname (req a)) of
                     None \<Rightarrow> False
                   | Some options \<Rightarrow>
                       s = \<lparr>sent_to = Some (target options),
                            answer = relay (upstream a (target options) (req a))\<rparr>)
           callers (drop (length earlier) (gateway_log (earlier @ callers)))
       \<and> length (filter (\<lambda>s. sent_to s \<noteq> None)
                   (drop (length earlier) (gateway_log (earlier @ callers))))
           = length callers"
proof -
  have a: "drop (length earlier) (gateway_log (earlier @ callers)) = gateway_log callers"
    by (simp add: gateway_log_append length_gateway_log)
  note b = forwarded_callers [OF assms]
  then have "list_all (\<lambda>s. sent_to s \<noteq> None) (gateway_log callers)"
    by (auto simp: list_all2_conv_all_nth list_all_length split: option.splits)
  then have "filter (\<lambda>s. sent_to s \<noteq> None) (gateway_log callers) = gateway_log callers"
    by (simp add: list_all_iff)
  then have c: "length (filter (\<lambda>s. sent_to s \<noteq> None) (gateway_log callers)) = length callers"
    by (simp add: length_gateway_log)
  from b c show ?thesis by (simp only: a)
qed

text \<open>
  Five failures, then two callers at the same instant 40 seconds in: both are sent to
  the order service, the first fails and the second is answered.
\<close>

theorem two_callers_after_cool_down_both_forwarded:
  "map answer (gateway_log (map failing_order_call [0, 1, 2, 3, 4])) = [ProxyError, ProxyError, ProxyError, ProxyError, ProxyError]
   \<and> drop 5 (gateway_log (map failing_order_call [0, 1, 2, 3, 4]
                  @ [\<lparr>at = 40, req = get_orders, upstream = unreachable\<rparr>,
                     \<lparr>at = 40, req = get_orders, upstream = answering\<rparr>]))
       = [\<lparr>sent_to = Some ''http://order-service:4003'', answer = ProxyError\<rparr>,
          \<lparr>sent_to = Some ''http://order-service:4003'', answer = Relayed ()\<rparr>]"
  by (simp add: failing_order_call_def get_orders_def gateway_def express_json_def relay_def
                gateway_mounts_def mount_matches_def lower_def unreachable_def answering_def)

theorem every_caller_is_forwarded_witness:
  "list_all (\<lambda>a. handed_on (req a) \<and> route gateway_mounts (pathname (req a)) \<noteq> None)
     [\<lparr>at = 40, req = get_orders, upstream = unreachable\<rparr>,
      \<lparr>at = 40, req = get_orders, upstream = answering\<rparr>]
   \<and> map sent_to
       (drop 5 (gateway_log (map failing_order_call [0, 1, 2, 3, 4]
                  @ [\<lparr>at = 40, req = get_orders, upstream = unreachable\<rparr>,
                     \<lparr>at = 40, req = get_orders, upstream = answering\<rparr>])))
       = [Some ''http://order-service:4003'', Some ''http://order-service:4003'']
   \<and> length (filter (\<lambda>s. sent_to s \<noteq> None)
        (drop 5 (gateway_log (map failing_order_call [0, 1, 2, 3, 4]
                  @ [\<lparr>at = 40, req = get_orders, upstream = unreachable\<rparr>,
                     \<lparr>at = 40, req = get_orders, upstream = answering\<rparr>])))) = 2"
proof -
  let ?callers = "[\<lparr>at = 40, req = get_orders, upstream = unreachable\<rparr>,
                   \<lparr>at = 40, req = get_orders, upstream = answering\<rparr>]"
  let ?options = "\<lparr>target = ''http://order-service:4003'', changeOrigin = True,
                   timeout = None, proxyTimeout = None\<rparr>"
  have o: "route gateway_mounts (pathname get_orders) = Some ?options"
    by (simp add: get_orders_def gateway_mounts_def mount_matches_def lower_def)
  have r: "list_all (\<lambda>a. handed_on (req a) \<and> route gateway_mounts (pathname (req a)) \<noteq> None)
             ?callers"
    by (simp add: o) (simp add: get_orders_def handed_on_def express_json_def)
  note A = every_caller_is_forwarded [OF r, of "map failing_order_call [0, 1, 2, 3, 4]"]
  have l: "length (map failing_order_call [0, 1, 2, 3, 4]) = 5" by simp
  from A [THEN conjunct1]
  have "map sent_to (drop 5 (gateway_log (map failing_order_call [0, 1, 2, 3, 4] @ ?callers)))
          = [Some ''http://order-service:4003'', Some ''http://order-service:4003'']"
    unfolding l by (auto simp: o list_all2_Cons1)
  with r A [THEN conjunct2] show ?thesis
    unfolding l by simp
qed

section \<open>Properties of the payment service\<close>

text \<open>
  C8, as the code has it. \<open>POST /payments\<close> answers every request that the body parser
  hands on with \<open>{"status": "PAYMENT_SUCCESS"}\<close>: for any two such requests, whatever
  their headers and bodies, the responses are equal. A request whose body the parser
  rejects is answered with the parser's status and does not reach the handler.
\<close>

theorem post_payments_after_parser:
  assumes "http_method r = ''POST''" and "route_matches ''/payments'' (pathname r)"
    and "http_method r' = ''POST''" and "route_matches ''/payments'' (pathname r')"
  shows "payment_service r =
           (case body r of
              Rejected code \<Rightarrow> Default code
            | _ \<Rightarrow> Handled (Json [(''status'', ''PAYMENT_SUCCESS'')]))
       \<and> (handed_on r \<and> handed_on r' \<longrightarrow> payment_service r = payment_service r')"
  using assms
  by (auto simp: payment_service_def handed_on_def express_json_def post_payments_def
           split: json_body.splits)

text \<open>
  Two \<open>POST /payments\<close> requests with a JSON content type. The body \<open>{"amount": 10}\<close>
  is parsed and the handler answers; the body \<open>{bad\<close> is not well-formed, the parser
  rejects it with 400, and the two answers differ.
\<close>

theorem malformed_payment_body_is_refused:
  "payment_service
     \<lparr>http_method = ''POST'', pathname = ''/payments'',
      headers = [(''content-type'', ''application/json'')], body = Parsed ''{\"amount\": 10}''\<rparr>
     = Handled (Json [(''status'', ''PAYMENT_SUCCESS'')])
   \<and> payment_service
       \<lparr>http_method = ''POST'', pathname = ''/payments'',
        headers = [(''content-type'', ''application/json'')], body = Rejected 400\<rparr>
     = Default 400"
  by (simp add: payment_service_def express_json_def post_payments_def route_matches_def lower_def)

theorem post_payments_after_parser_witness:
  "handed_on \<lparr>http_method = ''POST'', pathname = ''/payments'',
              headers = [(''content-type'', ''application/json'')],
              body = Parsed ''{\"amount\": 10}''\<rparr>
   \<and> handed_on (\<lparr>http_method = ''POST'', pathname = ''/Payments/'', headers = [], body = Unread\<rparr>
                 :: ((string \<times> string) list, string) request)
   \<and> payment_service
       \<lparr>http_method = ''POST'', pathname = ''/payments'',
        headers = [(''content-type'', ''application/json'')], body = Parsed ''{\"amount\": 10}''\<rparr>
     = payment_service
         (\<lparr>http_method = ''POST'', pathname = ''/Payments/'', headers = [], body = Unread\<rparr>
            :: ((string \<times> string) list, string) request)
   \<and> payment_service
       \<lparr>http_method = ''POST'', pathname = ''/payments'',
        headers = [(''content-type'', ''application/json'')], body = Parsed ''{\"amount\": 10}''\<rparr>
     = Handled (Json [(''status'', ''PAYMENT_SUCCESS'')])"
proof -
  let ?a = "\<lparr>http_method = ''POST'', pathname = ''/payments'',
             headers = [(''content-type'', ''application/json'')],
             body = Parsed ''{\"amount\": 10}''\<rparr>"
  let ?b = "\<lparr>http_method = ''POST'', pathname = ''/Payments/'',
             headers = ([] :: (string \<times> string) list), body = (Unread :: string json_body)\<rparr>"
  have ma: "http_method ?a = ''POST''" and mb: "http_method ?b = ''POST''" by simp_all
  have pa: "route_matches ''/payments'' (pathname ?a)"
    by (simp add: route_matches_def lower_def)
  have pb: "route_matches ''/payments'' (pathname ?b)"
    by code_simp
  have ha: "handed_on ?a" and hb: "handed_on ?b"
    by (simp_all add: handed_on_def express_json_def)
  note A = post_payments_after_parser [OF ma pa mb pb]
  from ha hb A [THEN conjunct1] A [THEN conjunct2, THEN mp, OF conjI [OF ha hb]]
  show ?thesis by simp
qed

section \<open>Properties of the auth service\<close>

lemma select_users_by_email_rows:
  "select_users_by_email db e = Inr rows \<Longrightarrow> rows = rows_with_email db e"
  by (cases e) (auto simp: select_users_by_email_def rows_with_email_def split: if_splits)

text \<open>
  When the handler responds, and with what: the database must answer; with no row for
  the email the response is 401; with a row, the password must be a string, and a
  matching password needs the signing key.
\<close>

lemma login_responds:
  "login lib JWT_SECRET db req_body = Inr res \<longleftrightarrow>
     auth_db_up db \<and>
     (case rows_with_email db (body_email req_body) of
        [] \<Rightarrow> res = SendStatus 401
      | u # others \<Rightarrow>
          (\<exists>pw. body_password req_body = Some pw \<and>
             (if compareSync lib pw (password u)
              then (\<exists>key. JWT_SECRET = Some key \<and> key \<noteq> [] \<and>
                      res = Json [(''token'', sign lib (user_id u, role u) key)])
              else res = SendStatus 401)))"
proof (cases "auth_db_up db")
  case False
  then show ?thesis by (simp add: login_def select_users_by_email_def)
next
  case True
  then have sel: "select_users_by_email db (body_email req_body)
                    = Inr (rows_with_email db (body_email req_body))"
    by (cases "body_email req_body")
       (auto simp: select_users_by_email_def rows_with_email_def)
  show ?thesis
  proof (cases "rows_with_email db (body_email req_body)")
    case Nil
    with True sel show ?thesis by (auto simp: login_def)
  next
    case (Cons u others)
    with True sel show ?thesis
      by (cases "body_password req_body"; cases JWT_SECRET)
         (auto simp: login_def bcrypt_compareSync_def jwt_sign_def)
  qed
qed

text \<open>
  C9, as the code has it. Whenever \<open>POST /auth/login\<close> responds, the response is 401
  exactly when no row has the given email or the given password does not match the
  stored hash, and then it carries no token; otherwise it is a JSON body whose token is
  the signature of the matched user's id and role under the configured key. The handler
  responds whenever the database answers, the password is a string and the key is set.
\<close>

theorem login_401_or_token:
  "(auth_db_up db \<and> body_password req_body = Some pw \<and> JWT_SECRET = Some key \<and> key \<noteq> []
      \<longrightarrow> (\<exists>res. login lib JWT_SECRET db req_body = Inr res))
   \<and> (login lib JWT_SECRET db req_body = Inr res \<longrightarrow>
        (res = SendStatus 401 \<longleftrightarrow> rejected lib db req_body)
      \<and> (rejected lib db req_body \<longrightarrow> token_of res = None)
      \<and> (\<not> rejected lib db req_body \<longrightarrow>
            (\<exists>u others key.
               rows_with_email db (body_email req_body) = u # others
             \<and> JWT_SECRET = Some key
             \<and> res = Json [(''token'', sign lib (user_id u, role u) key)])))"
proof (intro conjI impI)
  assume "auth_db_up db \<and> body_password req_body = Some pw \<and> JWT_SECRET = Some key \<and> key \<noteq> []"
  then show "\<exists>res. login lib JWT_SECRET db req_body = Inr res"
    unfolding login_responds
    by (cases "rows_with_email db (body_email req_body)") auto
next
  assume r: "login lib JWT_SECRET db req_body = Inr res"
  show "res = SendStatus 401 \<longleftrightarrow> rejected lib db req_body"
    using r unfolding login_responds
    by (auto simp: rejected_def password_matches_def split: list.splits if_splits)
  {
    assume "rejected lib db req_body"
    then show "token_of res = None"
      using r unfolding login_responds
      by (auto simp: rejected_def password_matches_def split: list.splits if_splits)
  }
  {
    assume "\<not> rejected lib db req_body"
    then show "\<exists>u others key.
               rows_with_email db (body_email req_body) = u # others
             \<and> JWT_SECRET = Some key
             \<and> res = Json [(''token'', sign lib (user_id u, role u) key)]"
      using r unfolding login_responds
      by (auto simp: rejected_def password_matches_def split: list.splits if_splits)
  }
qed

text \<open>
  A login for an existing email with no password in the body: the password does not
  match, yet the handler sends no 401; \<open>compareSync\<close> throws and the handler ends
  with the error.
\<close>

theorem login_without_password_throws:
  "rows_with_email \<lparr>auth_db_up = True, users = [alice]\<rparr> (Some ''alice@example.com'') = [alice]
   \<and> rejected toy_crypto \<lparr>auth_db_up = True, users = [alice]\<rparr>
         \<lparr>body_email = Some ''alice@example.com'', body_password = None\<rparr>
   \<and> login toy_crypto (Some ''k'') \<lparr>auth_db_up = True, users = [alice]\<rparr>
         \<lparr>body_email = Some ''alice@example.com'', body_password = None\<rparr>
     = Inl TypeError"
  by (simp add: login_def select_users_by_email_def bcrypt_compareSync_def rejected_def
                rows_with_email_def password_matches_def alice_def)

theorem login_401_or_token_witness:
  "login toy_crypto (Some ''k'') \<lparr>auth_db_up = True, users = [alice]\<rparr>
         \<lparr>body_email = Some ''alice@example.com'', body_password = Some ''secret''\<rparr>
     = Inr (Json [(''token'', ''u1.USER.k'')])
   \<and> \<not> rejected toy_crypto \<lparr>auth_db_up = True, users = [alice]\<rparr>
         \<lparr>body_email = Some ''alice@example.com'', body_password = Some ''secret''\<rparr>
   \<and> login toy_crypto (Some ''k'') \<lparr>auth_db_up = True, users = [alice]\<rparr>
         \<lparr>body_email = Some ''alice@example.com'', body_password = Some ''wrong''\<rparr>
     = Inr (SendStatus 401)
   \<and> rejected toy_crypto \<lparr>auth_db_up = True, users = [alice]\<rparr>
         \<lparr>body_email = Some ''alice@example.com'', body_password = Some ''wrong''\<rparr>
   \<and> login toy_crypto (Some ''k'') \<lparr>auth_db_up = True, users = [alice]\<rparr>
         \<lparr>body_email = Some ''bob@example.com'', body_password = Some ''secret''\<rparr>
     = Inr (SendStatus 401)
   \<and> rejected toy_crypto \<lparr>auth_db_up = True, users = [alice]\<rparr>
         \<lparr>body_email = Some ''bob@example.com'', body_password = Some ''secret''\<rparr>"
proof -
  let ?db = "\<lparr>auth_db_up = True, users = [alice]\<rparr>"
  have ok: "login toy_crypto (Some ''k'') ?db
              \<lparr>body_email = Some ''alice@example.com'', body_password = Some ''secret''\<rparr>
            = Inr (Json [(''token'', ''u1.USER.k'')])"
    by (simp add: login_def select_users_by_email_def bcrypt_compareSync_def jwt_sign_def
                  toy_crypto_def alice_def)
  have wrong: "login toy_crypto (Some ''k'') ?db
              \<lparr>body_email = Some ''alice@example.com'', body_password = Some ''wrong''\<rparr>
            = Inr (SendStatus 401)"
    by (simp add: login_def select_users_by_email_def bcrypt_compareSync_def jwt_sign_def
                  toy_crypto_def alice_def)
  have nobody: "login toy_crypto (Some ''k'') ?db
              \<lparr>body_email = Some ''bob@example.com'', body_password = Some ''secret''\<rparr>
            = Inr (SendStatus 401)"
    by (simp add: login_def select_users_by_email_def bcrypt_compareSync_def jwt_sign_def
                  toy_crypto_def alice_def)
  note t = login_401_or_token [THEN conjunct2, THEN mp]
  from t [OF ok, THEN conjunct1] t [OF wrong, THEN conjunct1] t [OF nobody, THEN conjunct1]
       ok wrong nobody
  show ?thesis by simp

qed

section \<open>Properties of the order service\<close>

text \<open>
  C10. A call of \<open>POST /orders\<close> succeeds exactly when the database and the queue
  are reachable, and then it has added exactly one row, with the status \<open>PLACED\<close>,
  and exactly one \<open>order.created\<close> job, and answers with the status \<open>PLACED\<close>; the
  row, the job and the response carry the same id, the one \<open>uuid()\<close> returned.
\<close>

theorem post_orders_success:
  "post_orders uuid st = (Inr res, st') \<longleftrightarrow>
     orders_db_up st \<and> queue_up st
   \<and> res = Json [(''orderId'', uuid), (''status'', ''PLACED'')]
   \<and> st' = st\<lparr>orders := Some ((case orders st of None \<Rightarrow> [] | Some rows \<Rightarrow> rows)
                                 @ [\<lparr>order_id = uuid, status = ''PLACED''\<rparr>]),
              jobs := jobs st @ [\<lparr>job_name = ''order.created'', job_orderId = uuid\<rparr>]\<rparr>"
  by (cases "orders st")
     (auto simp: post_orders_def create_orders_table_def insert_order_def orderQueue_add_def)

theorem post_orders_success_witness:
  "post_orders ''6f1c'' \<lparr>orders_db_up = True, orders = None, queue_up = True, jobs = []\<rparr>
     = (Inr (Json [(''orderId'', ''6f1c''), (''status'', ''PLACED'')]),
        \<lparr>orders_db_up = True, orders = Some [\<lparr>order_id = ''6f1c'', status = ''PLACED''\<rparr>],
         queue_up = True, jobs = [\<lparr>job_name = ''order.created'', job_orderId = ''6f1c''\<rparr>]\<rparr>)
   \<and> orders (snd (post_orders ''6f1c'' \<lparr>orders_db_up = True, orders = None, queue_up = True, jobs = []\<rparr>))
     = Some [\<lparr>order_id = ''6f1c'', status = ''PLACED''\<rparr>]
   \<and> jobs (snd (post_orders ''6f1c'' \<lparr>orders_db_up = True, orders = None, queue_up = True, jobs = []\<rparr>))
     = [\<lparr>job_name = ''order.created'', job_orderId = ''6f1c''\<rparr>]"
proof -
  let ?st = "\<lparr>orders_db_up = True, orders = None, queue_up = True, jobs = []\<rparr>"
  have run: "post_orders ''6f1c'' ?st
     = (Inr (Json [(''orderId'', ''6f1c''), (''status'', ''PLACED'')]),
        \<lparr>orders_db_up = True, orders = Some [\<lparr>order_id = ''6f1c'', status = ''PLACED''\<rparr>],
         queue_up = True, jobs = [\<lparr>job_name = ''order.created'', job_orderId = ''6f1c''\<rparr>]\<rparr>)"
    by (simp add: post_orders_def create_orders_table_def insert_order_def orderQueue_add_def)
  from post_orders_success [THEN iffD1, OF run] run show ?thesis by simp
qed

end
